theory Spec2Isabelle
  imports Complex_Main "HOL-Library.AList" "HOL-Library.Multiset" "HOL-Library.Sublist"
    "HOL-Library.Log_Nat"
begin

section \<open>Data model (jupityr/gamification/models/player.py)\<close>

text \<open>
  The gamification core of the repository: the \<open>Player\<close> class of
  \<open>models/player.py\<close> and the \<open>GameEngine\<close> class of \<open>engine/game_engine.py\<close>.
  Python integers are unbounded, so they are \<open>int\<close>. Strings are \<open>string\<close>.
\<close>

datatype Skill = NLP | ML_SKILL | DATA_ANALYSIS | PROGRAMMING

text \<open>The enum member \<open>Skill.ML\<close> is written \<open>ML_SKILL\<close>; \<open>skill_value\<close> is \<open>Skill.value\<close>.\<close>

fun skill_value :: "Skill \<Rightarrow> string" where
  "skill_value NLP = ''nlp''"
| "skill_value ML_SKILL = ''machine_learning''"
| "skill_value DATA_ANALYSIS = ''data_analysis''"
| "skill_value PROGRAMMING = ''programming''"

text \<open>Iteration order of \<open>for skill in Skill\<close>: the order of declaration.\<close>

definition all_skills :: "Skill list" where
  "all_skills = [NLP, ML_SKILL, DATA_ANALYSIS, PROGRAMMING]"

text \<open>
  A \<open>datetime\<close> is an integer count of microseconds; \<open>None\<close> is \<open>None\<close>.
  The fields \<open>id\<close>, \<open>name\<close>, \<open>points\<close>, ... of the two dataclasses carry a
  prefix, since a field name is a constant of the theory.
\<close>

record Achievement =
  ach_id :: string
  ach_name :: string
  ach_description :: string
  ach_category :: string
  ach_points :: int
  ach_earned_at :: int
  ach_metadata :: "(string \<times> string) list"

record Challenge =
  ch_id :: string
  ch_name :: string
  ch_description :: string
  ch_difficulty :: int
  ch_skills :: "Skill list"
  ch_points :: int
  completed :: bool
  completed_at :: "int option"

text \<open>
  A \<open>Challenge\<close> object is shared by reference between the engine's catalog and
  the players it is assigned to, and \<open>Player.complete_challenge\<close> writes to it, so
  challenge objects live in a store: a reference is a natural number and the heap maps
  every reference to the object it denotes. \<open>next_ref\<close> is the first reference not
  yet handed out. References held by the program always denote allocated objects, as in
  Python.

  \<open>datetime.now()\<close> reads the environment: \<open>clock w n\<close> is the value of the
  \<open>n\<close>-th reading (any sequence of values), \<open>reads w\<close> the number of readings
  made so far.

  \<open>_achievements\<close> is a list. \<open>_challenges\<close> is a dict from challenge id to the
  assigned object, kept as an association list in insertion order. \<open>_skill_levels\<close>
  is a dict created with every member of \<open>Skill\<close> as a key and never shrunk, so it is
  a total function on \<open>Skill\<close>.
\<close>

record Player =
  player_id :: string
  username :: string
  level :: int
  experience :: int
  total_points :: int
  achievements :: "Achievement list"
  challenges :: "(string \<times> nat) list"
  skill_levels :: "Skill \<Rightarrow> int"
  created_at :: int
  last_active :: int

text \<open>
  An event listener is an arbitrary callable; it is modelled as an observer, known by a
  number, that does nothing but get called. Every call of \<open>_trigger_event\<close> on a
  supported event leaves one entry in the trace: the event name, the arguments passed
  (the player as it is at that moment, and the achievement or the challenge id), and the
  listeners invoked, in order.
\<close>

datatype payload = NoArg | AchievementArg Achievement | ChallengeIdArg string

record firing =
  f_event :: string
  f_player :: Player
  f_arg :: payload
  f_listeners :: "nat list"

record world =
  heap :: "nat \<Rightarrow> Challenge"
  next_ref :: nat
  clock :: "nat \<Rightarrow> int"
  reads :: nat
  trace :: "firing list"

definition now :: "world \<Rightarrow> int \<times> world" where
  "now w = (clock w (reads w), w\<lparr>reads := Suc (reads w)\<rparr>)"

text \<open>The constructor call \<open>Challenge(...)\<close>: a new object in the store.\<close>

definition new_challenge :: "Challenge \<Rightarrow> world \<Rightarrow> nat \<times> world" where
  "new_challenge c w =
     (next_ref w, w\<lparr>heap := (heap w)(next_ref w := c), next_ref := Suc (next_ref w)\<rparr>)"

text \<open>
  The world before the program starts: no challenge object allocated, no reading of the
  clock made, nothing fired. The content of the unallocated store is immaterial.
\<close>

definition blank_challenge :: Challenge where
  "blank_challenge = \<lparr>ch_id = [], ch_name = [], ch_description = [], ch_difficulty = 0,
     ch_skills = [], ch_points = 0, completed = False, completed_at = None\<rparr>"

definition init_world :: "(nat \<Rightarrow> int) \<Rightarrow> world" where
  "init_world clk = \<lparr>heap = (\<lambda>r. blank_challenge), next_ref = 0, clock = clk, reads = 0,
     trace = []\<rparr>"

section \<open>Player\<close>

text \<open>\<open>Player.__init__\<close>: two readings of the clock, \<open>created_at\<close> first.\<close>

definition Player_init :: "string \<Rightarrow> string \<Rightarrow> world \<Rightarrow> Player \<times> world" where
  "Player_init pid uname w =
     (case now w of (t1, w1) \<Rightarrow>
      case now w1 of (t2, w2) \<Rightarrow>
        (\<lparr>player_id = pid, username = uname, level = 1, experience = 0, total_points = 0,
          achievements = [], challenges = [], skill_levels = (\<lambda>skill. 0),
          created_at = t1, last_active = t2\<rparr>, w2))"

text \<open>\<open>Player.add_experience\<close> (player.py, lines 81 to 97).\<close>

definition add_experience :: "int \<Rightarrow> Player \<Rightarrow> world \<Rightarrow> bool \<times> Player \<times> world" where
  "add_experience amount p w =
     (case now w of (t, w1) \<Rightarrow>
      let p1 = p\<lparr>experience := experience p + amount, last_active := t\<rparr>;
          required_exp = 100 * level p1
      in if experience p1 \<ge> required_exp
         then (True, p1\<lparr>level := level p1 + 1, experience := experience p1 - required_exp\<rparr>, w1)
         else (False, p1, w1))"

text \<open>\<open>Player.earn_achievement\<close> (lines 99 to 104); the result of \<open>add_experience\<close> is dropped.\<close>

definition earn_achievement :: "Achievement \<Rightarrow> Player \<Rightarrow> world \<Rightarrow> Player \<times> world" where
  "earn_achievement achievement p w =
     (if ach_id achievement \<notin> set (map ach_id (achievements p))
      then (case add_experience (ach_points achievement)
                   (p\<lparr>achievements := achievements p @ [achievement],
                      total_points := total_points p + ach_points achievement\<rparr>) w
            of (leveled, p', w') \<Rightarrow> (p', w'))
      else (p, w))"

text \<open>
  \<open>Player.start_challenge\<close> (lines 106 to 109): the argument is a reference; the key
  is the \<open>id\<close> field of the object it denotes.
\<close>

definition start_challenge :: "nat \<Rightarrow> Player \<Rightarrow> world \<Rightarrow> Player" where
  "start_challenge r p w =
     (if map_of (challenges p) (ch_id (heap w r)) = None
      then p\<lparr>challenges := challenges p @ [(ch_id (heap w r), r)]\<rparr>
      else p)"

text \<open>Assignment to a field of the object behind a reference.\<close>

definition set_completed :: "nat \<Rightarrow> bool \<Rightarrow> world \<Rightarrow> world" where
  "set_completed r b w = w\<lparr>heap := (heap w)(r := (heap w r)\<lparr>completed := b\<rparr>)\<rparr>"

definition set_completed_at :: "nat \<Rightarrow> int option \<Rightarrow> world \<Rightarrow> world" where
  "set_completed_at r t w = w\<lparr>heap := (heap w)(r := (heap w r)\<lparr>completed_at := t\<rparr>)\<rparr>"

text \<open>The loop \<open>for skill in challenge.skills: self._skill_levels[skill] += 1\<close>.\<close>

fun increase_skills :: "Skill list \<Rightarrow> Player \<Rightarrow> Player" where
  "increase_skills [] p = p"
| "increase_skills (skill # skills) p =
     increase_skills skills
       (p\<lparr>skill_levels := (skill_levels p)(skill := skill_levels p skill + 1)\<rparr>)"

text \<open>\<open>Player.complete_challenge\<close> (lines 111 to 131).\<close>

definition complete_challenge :: "string \<Rightarrow> Player \<Rightarrow> world \<Rightarrow> bool \<times> Player \<times> world" where
  "complete_challenge challenge_id p w =
     (case map_of (challenges p) challenge_id of
        None \<Rightarrow> (False, p, w)
      | Some r \<Rightarrow>
          if \<not> completed (heap w r) then
            (case now (set_completed r True w) of (t, w1) \<Rightarrow>
             let w2 = set_completed_at r (Some t) w1 in
             case add_experience (ch_points (heap w2 r))
                    (p\<lparr>total_points := total_points p + ch_points (heap w2 r)\<rparr>) w2
             of (leveled, p1, w3) \<Rightarrow>
               (True, increase_skills (ch_skills (heap w3 r)) p1, w3))
          else (False, p, w))"

text \<open>\<open>Player.get_skill_level\<close>.\<close>

definition get_skill_level :: "Skill \<Rightarrow> Player \<Rightarrow> int" where
  "get_skill_level skill p = skill_levels p skill"

text \<open>
  The properties \<open>completed_challenges\<close> and \<open>active_challenges\<close>: the objects
  behind the player's references, in the order of the dict, filtered on the flag.
\<close>

definition challenge_objects :: "Player \<Rightarrow> world \<Rightarrow> Challenge list" where
  "challenge_objects p w = map (\<lambda>(k, r). heap w r) (challenges p)"

definition active_challenges :: "Player \<Rightarrow> world \<Rightarrow> Challenge list" where
  "active_challenges p w = filter (\<lambda>c. \<not> completed c) (challenge_objects p w)"

definition completed_challenges :: "Player \<Rightarrow> world \<Rightarrow> Challenge list" where
  "completed_challenges p w = filter (\<lambda>c. completed c) (challenge_objects p w)"

text \<open>
  \<open>Player.get_progress_summary\<close>. \<open>timedelta.days\<close> is the floor of the
  difference over the length of a day, here in microseconds.
\<close>

record summary =
  s_username :: string
  s_level :: int
  s_experience :: int
  s_total_points :: int
  s_achievements_count :: int
  s_completed_challenges :: int
  s_active_challenges :: int
  s_skills :: "(string \<times> int) list"
  s_days_active :: int

definition get_progress_summary :: "Player \<Rightarrow> world \<Rightarrow> summary \<times> world" where
  "get_progress_summary p w =
     (case now w of (t, w1) \<Rightarrow>
        (\<lparr>s_username = username p, s_level = level p, s_experience = experience p,
          s_total_points = total_points p,
          s_achievements_count = int (length (achievements p)),
          s_completed_challenges = int (length (completed_challenges p w)),
          s_active_challenges = int (length (active_challenges p w)),
          s_skills = map (\<lambda>skill. (skill_value skill, skill_levels p skill)) all_skills,
          s_days_active = (t - created_at p) div 86400000000\<rparr>, w1))"

section \<open>GameEngine (jupityr/gamification/engine/game_engine.py)\<close>

text \<open>
  An \<open>AchievementRule\<close> holds an achievement and a callable on the player. The
  callable is modelled as a predicate that reads the player and the challenge objects
  reachable from it, and changes nothing.
\<close>

record AchievementRule =
  achievement :: Achievement
  condition :: "(nat \<Rightarrow> Challenge) \<Rightarrow> Player \<Rightarrow> bool"
  description :: string

definition check :: "AchievementRule \<Rightarrow> Player \<Rightarrow> world \<Rightarrow> bool" where
  "check rule player w = condition rule (heap w) player"

text \<open>
  The four dicts and lists of the engine. \<open>_players\<close> and \<open>_challenge_catalog\<close> are
  association lists in insertion order (the order in which a Python dict is iterated); a
  dict assignment \<open>d[k] = v\<close> is \<open>AList.update k v\<close>, which replaces the value in
  place or appends a new key. The registry owns its players: a method call that changes
  a player object is followed here by storing the changed player under its key.
\<close>

record GameEngine =
  players :: "(string \<times> Player) list"
  achievement_rules :: "AchievementRule list"
  challenge_catalog :: "(string \<times> nat) list"
  event_listeners :: "(string \<times> nat list) list"

datatype error = ValueError string | ZeroDivisionError | OverflowError

definition GameEngine_init :: GameEngine where
  "GameEngine_init = \<lparr>players = [], achievement_rules = [], challenge_catalog = [],
     event_listeners = [(''level_up'', []), (''achievement_earned'', []),
                        (''challenge_completed'', [])]\<rparr>"

definition put_player :: "string \<Rightarrow> Player \<Rightarrow> GameEngine \<Rightarrow> GameEngine" where
  "put_player pid p e = e\<lparr>players := AList.update pid p (players e)\<rparr>"

text \<open>
  \<open>register_player\<close> (lines 51 to 58). The state comes back with the result in both
  cases, so that what an exception leaves behind is part of the model.
\<close>

definition register_player ::
  "string \<Rightarrow> string \<Rightarrow> GameEngine \<Rightarrow> world \<Rightarrow> (error + Player) \<times> GameEngine \<times> world" where
  "register_player pid uname e w =
     (if map_of (players e) pid \<noteq> None
      then (Inl (ValueError (''Player '' @ pid @ '' already exists'')), e, w)
      else (case Player_init pid uname w of (player, w') \<Rightarrow>
              (Inr player, put_player pid player e, w')))"

definition get_player :: "GameEngine \<Rightarrow> string \<Rightarrow> Player option" where
  "get_player e pid = map_of (players e) pid"

definition add_achievement_rule :: "AchievementRule \<Rightarrow> GameEngine \<Rightarrow> GameEngine" where
  "add_achievement_rule rule e = e\<lparr>achievement_rules := achievement_rules e @ [rule]\<rparr>"

definition add_challenge :: "nat \<Rightarrow> GameEngine \<Rightarrow> world \<Rightarrow> GameEngine" where
  "add_challenge r e w =
     e\<lparr>challenge_catalog := AList.update (ch_id (heap w r)) r (challenge_catalog e)\<rparr>"

text \<open>
  \<open>assign_challenge\<close> (lines 72 to 80). A player and a challenge object are both
  truthy, so \<open>if player and challenge\<close> tests that neither is \<open>None\<close>. The
  catalog's reference itself is handed to \<open>start_challenge\<close>.
\<close>

definition assign_challenge ::
  "string \<Rightarrow> string \<Rightarrow> GameEngine \<Rightarrow> world \<Rightarrow> bool \<times> GameEngine" where
  "assign_challenge pid challenge_id e w =
     (case get_player e pid of
        None \<Rightarrow> (False, e)
      | Some player \<Rightarrow>
          (case map_of (challenge_catalog e) challenge_id of
             None \<Rightarrow> (False, e)
           | Some r \<Rightarrow> (True, put_player pid (start_challenge r player w) e)))"

text \<open>\<open>_trigger_event\<close> (lines 152 to 156).\<close>

definition trigger_event :: "GameEngine \<Rightarrow> string \<Rightarrow> Player \<Rightarrow> payload \<Rightarrow> world \<Rightarrow> world" where
  "trigger_event e event p arg w =
     (case map_of (event_listeners e) event of
        None \<Rightarrow> w
      | Some listeners \<Rightarrow>
          w\<lparr>trace := trace w @
              [\<lparr>f_event = event, f_player = p, f_arg = arg, f_listeners = listeners\<rparr>]\<rparr>)"

text \<open>
  \<open>_check_achievements\<close> (lines 125 to 145): the loop over the rules, with the
  player, the world and the list \<open>new_achievements\<close> carried along.
\<close>

fun check_loop ::
  "GameEngine \<Rightarrow> AchievementRule list \<Rightarrow> Achievement list \<Rightarrow> Player \<Rightarrow> world
     \<Rightarrow> Achievement list \<times> Player \<times> world" where
  "check_loop e [] new_achievements player w = (new_achievements, player, w)"
| "check_loop e (rule # rules) new_achievements player w =
     (let has_achievement =
            list_ex (\<lambda>a. ach_id a = ach_id (achievement rule)) (achievements player)
      in if \<not> has_achievement \<and> check rule player w
         then (case earn_achievement (achievement rule) player w of (p1, w1) \<Rightarrow>
                 check_loop e rules (new_achievements @ [achievement rule]) p1
                   (trigger_event e ''achievement_earned'' p1
                      (AchievementArg (achievement rule)) w1))
         else check_loop e rules new_achievements player w)"

definition check_achievements ::
  "GameEngine \<Rightarrow> Player \<Rightarrow> world \<Rightarrow> Achievement list \<times> Player \<times> world" where
  "check_achievements e player w = check_loop e (achievement_rules e) [] player w"

text \<open>\<open>complete_player_challenge\<close> (lines 82 to 103).\<close>

definition complete_player_challenge ::
  "string \<Rightarrow> string \<Rightarrow> GameEngine \<Rightarrow> world \<Rightarrow> bool \<times> GameEngine \<times> world" where
  "complete_player_challenge pid challenge_id e w =
     (case get_player e pid of
        None \<Rightarrow> (False, e, w)
      | Some player \<Rightarrow>
          (case complete_challenge challenge_id player w of (success, p1, w1) \<Rightarrow>
             if success
             then (case check_achievements e p1
                          (trigger_event e ''challenge_completed'' p1
                             (ChallengeIdArg challenge_id) w1)
                   of (new_achievements, p2, w2) \<Rightarrow> (success, put_player pid p2 e, w2))
             else (success, put_player pid p1 e, w1)))"

text \<open>\<open>award_experience\<close> (lines 105 to 123).\<close>

definition award_experience ::
  "string \<Rightarrow> int \<Rightarrow> GameEngine \<Rightarrow> world \<Rightarrow> bool \<times> GameEngine \<times> world" where
  "award_experience pid amount e w =
     (case get_player e pid of
        None \<Rightarrow> (False, e, w)
      | Some player \<Rightarrow>
          (case add_experience amount player w of (leveled_up, p1, w1) \<Rightarrow>
           case check_achievements e p1
                  (if leveled_up then trigger_event e ''level_up'' p1 NoArg w1 else w1)
           of (new_achievements, p2, w2) \<Rightarrow> (leveled_up, put_player pid p2 e, w2)))"

text \<open>\<open>on\<close> (lines 147 to 150).\<close>

definition on :: "string \<Rightarrow> nat \<Rightarrow> GameEngine \<Rightarrow> GameEngine" where
  "on event listener e =
     (case map_of (event_listeners e) event of
        None \<Rightarrow> e
      | Some listeners \<Rightarrow>
          e\<lparr>event_listeners := AList.update event (listeners @ [listener]) (event_listeners e)\<rparr>)"

text \<open>
  \<open>get_leaderboard\<close> (lines 158 to 177). \<open>sorted(..., key, reverse=True)\<close> is a
  stable sort in descending order of the key: \<open>sort_key\<close> on the negated key. The
  slice \<open>xs[:n]\<close> takes the first \<open>n\<close> elements, and for a negative \<open>n\<close> all but
  the last \<open>-n\<close>.
\<close>

definition slice_to :: "int \<Rightarrow> 'a list \<Rightarrow> 'a list" where
  "slice_to n xs = (if 0 \<le> n then take (nat n) xs else take (length xs - nat (- n)) xs)"

record ranked = summary +
  rank :: int

definition with_rank :: "int \<Rightarrow> summary \<Rightarrow> ranked" where
  "with_rank k s = summary.extend s \<lparr>rank = k\<rparr>"

fun leaderboard_rows :: "(nat \<times> Player) list \<Rightarrow> world \<Rightarrow> ranked list \<times> world" where
  "leaderboard_rows [] w = ([], w)"
| "leaderboard_rows ((idx, player) # rest) w =
     (case get_progress_summary player w of (s, w1) \<Rightarrow>
      case leaderboard_rows rest w1 of (rows, w2) \<Rightarrow>
        (with_rank (int idx + 1) s # rows, w2))"

definition sorted_players :: "GameEngine \<Rightarrow> Player list" where
  "sorted_players e = sort_key (\<lambda>p. - total_points p) (map snd (players e))"

definition get_leaderboard :: "int \<Rightarrow> GameEngine \<Rightarrow> world \<Rightarrow> ranked list \<times> world" where
  "get_leaderboard top_n e w =
     leaderboard_rows (enumerate 0 (slice_to top_n (sorted_players e))) w"









section \<open>Runs of the engine\<close>

text \<open>
  A run is a sequence of calls made on one engine from outside: the constructor of
  \<open>Challenge\<close> and the state-changing methods of \<open>GameEngine\<close>. A caller can pass
  \<open>add_challenge\<close> only an object that exists. A call of \<open>register_player\<close> that
  raises leaves the state as it was, and the run goes on with the next call.
\<close>

datatype call =
    RegisterPlayer string string
  | AddAchievementRule AchievementRule
  | NewChallenge Challenge
  | AddChallenge nat
  | AssignChallenge string string
  | CompletePlayerChallenge string string
  | AwardExperience string int
  | On string nat

fun step :: "call \<Rightarrow> GameEngine \<times> world \<Rightarrow> GameEngine \<times> world" where
  "step (RegisterPlayer pid uname) (e, w) =
     (case register_player pid uname e w of (res, e', w') \<Rightarrow> (e', w'))"
| "step (AddAchievementRule rule) (e, w) = (add_achievement_rule rule e, w)"
| "step (NewChallenge c) (e, w) = (e, snd (new_challenge c w))"
| "step (AddChallenge r) (e, w) = (if r < next_ref w then (add_challenge r e w, w) else (e, w))"
| "step (AssignChallenge pid cid) (e, w) = (snd (assign_challenge pid cid e w), w)"
| "step (CompletePlayerChallenge pid cid) (e, w) = snd (complete_player_challenge pid cid e w)"
| "step (AwardExperience pid amount) (e, w) = snd (award_experience pid amount e w)"
| "step (On event listener) (e, w) = (on event listener e, w)"

fun run :: "call list \<Rightarrow> GameEngine \<times> world \<Rightarrow> GameEngine \<times> world" where
  "run [] s = s"
| "run (c # cs) s = run cs (step c s)"

section \<open>Observations on the trace\<close>

text \<open>The firings of \<open>level_up\<close> recorded so far, oldest first.\<close>

definition level_up_firings :: "world \<Rightarrow> firing list" where
  "level_up_firings w = filter (\<lambda>f. f_event f = ''level_up'') (trace w)"

text \<open>
  The firings of \<open>achievement_earned\<close> recorded so far, each as the pair of the
  player's id and the achievement's id, oldest first.
\<close>

definition earned_of :: "firing \<Rightarrow> (string \<times> string) list" where
  "earned_of f =
     (if f_event f = ''achievement_earned''
      then (case f_arg f of
              AchievementArg a \<Rightarrow> [(player_id (f_player f), ach_id a)]
            | _ \<Rightarrow> [])
      else [])"

definition earned_firings :: "world \<Rightarrow> (string \<times> string) list" where
  "earned_firings w = concat (map earned_of (trace w))"

text \<open>
  What a listener sees. A firing calls the listeners it carries, in order, once for each
  occurrence; \<open>listener_calls l w\<close> lists the calls of listener \<open>l\<close> on
  \<open>achievement_earned\<close> so far, each as the pair of the player's id and the
  achievement's id. \<open>registered e l\<close> is the number of times \<open>l\<close> stands in the
  engine's list for that event.
\<close>

definition registered :: "GameEngine \<Rightarrow> nat \<Rightarrow> nat" where
  "registered e l =
     (case map_of (event_listeners e) ''achievement_earned'' of
        None \<Rightarrow> 0
      | Some listeners \<Rightarrow> count_list listeners l)"

definition calls_of :: "nat \<Rightarrow> firing \<Rightarrow> (string \<times> string) list" where
  "calls_of l f =
     (if f_event f = ''achievement_earned''
      then (case f_arg f of
              AchievementArg a \<Rightarrow>
                replicate (count_list (f_listeners f) l) (player_id (f_player f), ach_id a)
            | _ \<Rightarrow> [])
      else [])"

definition listener_calls :: "nat \<Rightarrow> world \<Rightarrow> (string \<times> string) list" where
  "listener_calls l w = concat (map (calls_of l) (trace w))"

text \<open>
  The invariant behind "once for each player and achievement": the event has its entry in
  the listener registry, a registered player carries its key as id and holds no
  achievement id twice, and every pair was fired as often as the player holds the id.
\<close>

definition earned_once_inv :: "GameEngine \<times> world \<Rightarrow> bool" where
  "earned_once_inv s =
     (case s of (e, w) \<Rightarrow>
        map_of (event_listeners e) ''achievement_earned'' \<noteq> None \<and>
        (\<forall>pid p. get_player e pid = Some p \<longrightarrow>
           player_id p = pid \<and> distinct (map ach_id (achievements p))) \<and>
        (\<forall>pid aid. count_list (earned_firings w) (pid, aid) =
           (case get_player e pid of
              None \<Rightarrow> 0
            | Some p \<Rightarrow> count_list (map ach_id (achievements p)) aid)))"

section \<open>Progression invariants\<close>

text \<open>
  The amounts and point values a call brings into the engine: the experience awarded,
  the points of a new challenge object, the points of a rule's achievement.
\<close>

fun call_gains :: "call \<Rightarrow> int list" where
  "call_gains (AwardExperience pid amount) = [amount]"
| "call_gains (NewChallenge c) = [ch_points c]"
| "call_gains (AddAchievementRule rule) = [ach_points (achievement rule)]"
| "call_gains c = []"

text \<open>
  What holds of every gain, of every registered player and of the whole state in a run
  with non-negative gains; with \<open>bounded\<close> set, gains are at most 200 as well and the
  experience stays below the threshold of the level. \<open>grows p p'\<close>: neither the
  points nor the level went down from \<open>p\<close> to \<open>p'\<close>.
\<close>

definition gain_ok :: "bool \<Rightarrow> int \<Rightarrow> bool" where
  "gain_ok bounded g = (0 \<le> g \<and> (bounded \<longrightarrow> g \<le> 200))"

definition player_ok :: "bool \<Rightarrow> Player \<Rightarrow> bool" where
  "player_ok bounded p =
     (1 \<le> level p \<and> 0 \<le> experience p \<and> 0 \<le> total_points p \<and>
      (bounded \<longrightarrow> experience p < 100 * level p))"

definition progress_inv :: "bool \<Rightarrow> GameEngine \<times> world \<Rightarrow> bool" where
  "progress_inv bounded s =
     (case s of (e, w) \<Rightarrow>
        (\<forall>r. gain_ok bounded (ch_points (heap w r))) \<and>
        (\<forall>rule \<in> set (achievement_rules e). gain_ok bounded (ach_points (achievement rule))) \<and>
        (\<forall>pid p. get_player e pid = Some p \<longrightarrow> player_ok bounded p))"

definition grows :: "Player \<Rightarrow> Player \<Rightarrow> bool" where
  "grows p p' = (total_points p \<le> total_points p' \<and> level p \<le> level p')"

section \<open>Example data\<close>

text \<open>Concrete values on which the theorems below are exercised.\<close>

definition badge :: Achievement where
  "badge = \<lparr>ach_id = ''first'', ach_name = ''First steps'', ach_description = [],
     ach_category = ''general'', ach_points = 120, ach_earned_at = 0, ach_metadata = []\<rparr>"

definition drill :: Challenge where
  "drill = \<lparr>ch_id = ''drill'', ch_name = ''Tokenizer drill'', ch_description = [],
     ch_difficulty = 1, ch_skills = [NLP, NLP], ch_points = 10, completed = False,
     completed_at = None\<rparr>"

definition drill_world :: world where
  "drill_world = snd (Player_init ''p1'' ''alice'' (snd (new_challenge drill (init_world int))))"

definition drilling_player :: Player where
  "drilling_player =
     start_challenge 0
       (fst (Player_init ''p1'' ''alice'' (snd (new_challenge drill (init_world int)))))
       drill_world"

definition quiz :: Challenge where
  "quiz = \<lparr>ch_id = ''quiz'', ch_name = ''Quiz'', ch_description = [],
     ch_difficulty = 1, ch_skills = [PROGRAMMING], ch_points = 10, completed = False,
     completed_at = None\<rparr>"

definition two_players_one_quiz :: "GameEngine \<times> world" where
  "two_players_one_quiz =
     run [NewChallenge quiz, AddChallenge 0,
          RegisterPlayer ''p1'' ''alice'', RegisterPlayer ''p2'' ''bob'',
          AssignChallenge ''p1'' ''quiz'', AssignChallenge ''p2'' ''quiz'']
       (GameEngine_init, init_world int)"

definition quiz_world :: world where
  "quiz_world = snd (Player_init ''p2'' ''bob'' (snd (new_challenge quiz (init_world int))))"

definition quiz_player :: Player where
  "quiz_player =
     start_challenge 0
       (fst (Player_init ''p2'' ''bob'' (snd (new_challenge quiz (init_world int)))))
       quiz_world"

definition podium :: "GameEngine \<times> world" where
  "podium =
     run [NewChallenge (quiz\<lparr>ch_id := ''gold'', ch_points := 30\<rparr>),
          NewChallenge (quiz\<lparr>ch_id := ''bronze'', ch_points := 10\<rparr>),
          NewChallenge (quiz\<lparr>ch_id := ''silver'', ch_points := 20\<rparr>),
          AddChallenge 0, AddChallenge 1, AddChallenge 2,
          RegisterPlayer ''p1'' ''alice'', RegisterPlayer ''p2'' ''bob'',
          RegisterPlayer ''p3'' ''carol'',
          AssignChallenge ''p1'' ''gold'', AssignChallenge ''p2'' ''bronze'',
          AssignChallenge ''p3'' ''silver'',
          CompletePlayerChallenge ''p1'' ''gold'', CompletePlayerChallenge ''p2'' ''bronze'',
          CompletePlayerChallenge ''p3'' ''silver'']
       (GameEngine_init, init_world int)"

definition marathon :: Challenge where
  "marathon = \<lparr>ch_id = ''marathon'', ch_name = ''Marathon'', ch_description = [],
     ch_difficulty = 3, ch_skills = [ML_SKILL], ch_points = 100, completed = False,
     completed_at = None\<rparr>"

definition always_rule :: AchievementRule where
  "always_rule = \<lparr>achievement = badge, condition = (\<lambda>h p. True), description = ''always''\<rparr>"

definition listening :: "GameEngine \<times> world" where
  "listening =
     run [On ''level_up'' 7, On ''achievement_earned'' 8, NewChallenge marathon,
          AddChallenge 0, RegisterPlayer ''p1'' ''alice'', AssignChallenge ''p1'' ''marathon'']
       (GameEngine_init, init_world int)"

definition veteran :: Achievement where
  "veteran = \<lparr>ach_id = ''veteran'', ach_name = ''Veteran'', ach_description = [],
     ach_category = ''progress'', ach_points = 50, ach_earned_at = 0, ach_metadata = []\<rparr>"

definition level5_rule :: AchievementRule where
  "level5_rule = \<lparr>achievement = veteran, condition = (\<lambda>h p. 5 \<le> level p),
     description = ''reach level 5''\<rparr>"

definition starter_rule :: AchievementRule where
  "starter_rule =
     \<lparr>achievement = veteran\<lparr>ach_id := ''starter'', ach_name := ''Starter'', ach_points := 5\<rparr>,
      condition = (\<lambda>h p. 1 \<le> level p), description = ''play''\<rparr>"

definition two_rules :: GameEngine where
  "two_rules =
     on ''achievement_earned'' 8
       (add_achievement_rule starter_rule (add_achievement_rule always_rule GameEngine_init))"

definition climbing :: "call list" where
  "climbing =
     [On ''achievement_earned'' 8, AddAchievementRule level5_rule,
      RegisterPlayer ''p1'' ''alice'', AwardExperience ''p1'' 100, AwardExperience ''p1'' 200,
      AwardExperience ''p1'' 300]"



section \<open>Progression: one level-up for each call\<close>

lemma add_experience_cases:
  "add_experience amount p w =
     (if experience p + amount \<ge> 100 * level p
      then (True, p\<lparr>experience := experience p + amount - 100 * level p,
                    last_active := clock w (reads w), level := level p + 1\<rparr>,
            w\<lparr>reads := Suc (reads w)\<rparr>)
      else (False, p\<lparr>experience := experience p + amount, last_active := clock w (reads w)\<rparr>,
            w\<lparr>reads := Suc (reads w)\<rparr>))"
  by (simp add: add_experience_def now_def Let_def)

text \<open>
  Claim C1. \<open>add_experience amount\<close> adds the amount to the experience and applies at
  most one level-up. When the sum reaches the threshold \<open>100 * level\<close>, the level
  grows by exactly one, the threshold is subtracted from the sum (the rest is carried
  over) and the call returns \<open>True\<close>; otherwise the level stays, the experience is the
  sum, and the call returns \<open>False\<close>. A new player (level 1, experience 0) who
  receives 150 is at level 2 with experience 50, and one who receives 250 is at level 2
  with experience 150.
\<close>

theorem add_experience_single_level_up:
  assumes "0 \<le> amount"
      and "add_experience amount p w = (leveled_up, p', w')"
      and "Player_init pid uname w0 = (fresh, w1)"
  shows "(100 * level p \<le> experience p + amount \<longrightarrow>
            leveled_up \<and> level p' = level p + 1 \<and>
            experience p' = experience p + amount - 100 * level p)
       \<and> (experience p + amount < 100 * level p \<longrightarrow>
            \<not> leveled_up \<and> level p' = level p \<and> experience p' = experience p + amount)
       \<and> level p' \<le> level p + 1
       \<and> (case add_experience 150 fresh w1 of (b, q, w2) \<Rightarrow>
            b \<and> level q = 2 \<and> experience q = 50)
       \<and> (case add_experience 250 fresh w1 of (b, q, w2) \<Rightarrow>
            b \<and> level q = 2 \<and> experience q = 150)"
proof -
  have fresh: "level fresh = 1" "experience fresh = 0"
    using assms(3) by (auto simp: Player_init_def now_def)
  have general: "(100 * level p \<le> experience p + amount \<longrightarrow>
            leveled_up \<and> level p' = level p + 1 \<and>
            experience p' = experience p + amount - 100 * level p)
       \<and> (experience p + amount < 100 * level p \<longrightarrow>
            \<not> leveled_up \<and> level p' = level p \<and> experience p' = experience p + amount)
       \<and> level p' \<le> level p + 1"
    using assms(2) by (auto simp: add_experience_cases split: if_splits)
  have examples: "(case add_experience 150 fresh w1 of (b, q, w2) \<Rightarrow>
            b \<and> level q = 2 \<and> experience q = 50)
       \<and> (case add_experience 250 fresh w1 of (b, q, w2) \<Rightarrow>
            b \<and> level q = 2 \<and> experience q = 150)"
    by (simp add: add_experience_cases fresh)
  from general examples show ?thesis by simp
qed

theorem add_experience_single_level_up_witness:
  "(0::int) \<le> 150 \<and>
   (case add_experience 150 (fst (Player_init ''p1'' ''alice'' (init_world int)))
           (snd (Player_init ''p1'' ''alice'' (init_world int)))
    of (b, q, w2) \<Rightarrow> b \<and> level q = 2 \<and> experience q = 50)"
proof -
  obtain fresh w1 where init: "Player_init ''p1'' ''alice'' (init_world int) = (fresh, w1)"
    by (cases "Player_init ''p1'' ''alice'' (init_world int)")
  obtain b q w2 where step: "add_experience 150 fresh w1 = (b, q, w2)"
    by (cases "add_experience 150 fresh w1")
  have amount: "(0::int) \<le> 150" by simp
  from add_experience_single_level_up [OF amount step init]
  show ?thesis by (simp add: init)
qed

section \<open>Achievements are earned once\<close>

lemma earn_held: "ach_id a \<in> set (map ach_id (achievements p)) \<Longrightarrow> earn_achievement a p w = (p, w)"
  by (simp add: earn_achievement_def)

lemma add_experience_frame:
  "add_experience amount p w = (b, p', w') \<Longrightarrow>
     achievements p' = achievements p \<and> total_points p' = total_points p \<and>
     challenges p' = challenges p \<and> skill_levels p' = skill_levels p \<and>
     player_id p' = player_id p \<and> username p' = username p \<and> created_at p' = created_at p \<and>
     heap w' = heap w \<and> trace w' = trace w \<and> next_ref w' = next_ref w \<and> clock w' = clock w \<and>
     reads w' = Suc (reads w)"
  by (auto simp: add_experience_cases split: if_splits)

text \<open>
  Claim C6. \<open>earn_achievement\<close> is idempotent on the achievement id. When an
  achievement with the same id is already held, the call changes nothing (player and
  world are the same). Otherwise the achievement is appended once, its points are added
  to \<open>total_points\<close>, and the same points go through \<open>add_experience\<close>, whose
  result is the new player, so that a level-up can follow. A second call with the same
  achievement, or with any achievement of the same id, changes nothing.
\<close>

theorem earn_achievement_idempotent:
  assumes "earn_achievement a p w = (p', w')"
  shows "(ach_id a \<in> set (map ach_id (achievements p)) \<longrightarrow> p' = p \<and> w' = w)
       \<and> (ach_id a \<notin> set (map ach_id (achievements p)) \<longrightarrow>
            achievements p' = achievements p @ [a] \<and>
            total_points p' = total_points p + ach_points a \<and>
            (\<exists>leveled. add_experience (ach_points a)
                 (p\<lparr>achievements := achievements p @ [a],
                    total_points := total_points p + ach_points a\<rparr>) w = (leveled, p', w')))
       \<and> earn_achievement a p' w' = (p', w')
       \<and> (\<forall>a'. ach_id a' = ach_id a \<longrightarrow> earn_achievement a' p' w' = (p', w'))"
proof (cases "ach_id a \<in> set (map ach_id (achievements p))")
  case True
  with assms show ?thesis by (auto simp: earn_achievement_def)
next
  case False
  obtain b q v where ae: "add_experience (ach_points a)
                 (p\<lparr>achievements := achievements p @ [a],
                    total_points := total_points p + ach_points a\<rparr>) w = (b, q, v)"
    by (metis prod_cases3)
  with False assms have eq: "p' = q" "w' = v" by (auto simp: earn_achievement_def)
  from add_experience_frame [OF ae] have fr: "achievements q = achievements p @ [a]"
    "total_points q = total_points p + ach_points a" by simp_all
  have held: "ach_id a \<in> set (map ach_id (achievements p'))" using fr eq by simp
  show ?thesis using False ae eq fr held by (auto simp: earn_achievement_def)
qed

theorem earn_achievement_idempotent_witness:
  "(case earn_achievement badge (fst (Player_init ''p1'' ''alice'' (init_world int)))
           (snd (Player_init ''p1'' ''alice'' (init_world int)))
    of (p', w') \<Rightarrow>
      map ach_id (achievements p') = [''first''] \<and> total_points p' = 120 \<and>
      level p' = 2 \<and> experience p' = 20 \<and>
      earn_achievement badge p' w' = (p', w'))"
proof -
  obtain p w where init: "Player_init ''p1'' ''alice'' (init_world int) = (p, w)"
    by (cases "Player_init ''p1'' ''alice'' (init_world int)")
  obtain p' w' where earn: "earn_achievement badge p w = (p', w')"
    by (cases "earn_achievement badge p w")
  have fresh: "achievements p = []" "total_points p = 0" "level p = 1" "experience p = 0"
    using init by (auto simp: Player_init_def now_def)
  have new: "ach_id badge \<notin> set (map ach_id (achievements p))"
    using fresh by simp
  from earn_achievement_idempotent [OF earn] new
  have appended: "achievements p' = achievements p @ [badge]"
    and points: "total_points p' = total_points p + ach_points badge"
    and again: "earn_achievement badge p' w' = (p', w')"
    and funnel: "\<exists>leveled. add_experience (ach_points badge)
                 (p\<lparr>achievements := achievements p @ [badge],
                    total_points := total_points p + ach_points badge\<rparr>) w = (leveled, p', w')"
    by blast+
  from funnel fresh have "level p' = 2 \<and> experience p' = 20"
    by (auto simp: add_experience_cases badge_def)
  moreover have "map ach_id (achievements p') = [''first'']" "total_points p' = 120"
    using appended points fresh by (simp_all add: badge_def)
  ultimately show ?thesis using again
    by (simp add: init earn)
qed

section \<open>Registration\<close>

lemma map_of_None_iff: "map_of xs k = None \<longleftrightarrow> k \<notin> fst ` set xs"
  by (simp add: map_of_eq_None_iff)

lemma update_fresh: "map_of xs k = None \<Longrightarrow> AList.update k v xs = xs @ [(k, v)]"
  by (induction xs) (auto split: if_splits)

text \<open>
  Claim C9. \<open>register_player\<close> raises the error exactly when the id is already a key
  of the registry, and then engine and world are unchanged. Otherwise it creates a new
  player (level 1, experience 0, no points, no achievements, no challenges), stores it
  under the id at the end of the registry, and returns it.
\<close>

theorem register_player_duplicate:
  assumes "register_player pid uname e w = (res, e', w')"
  shows "((\<exists>msg. res = Inl (ValueError msg)) \<longleftrightarrow> pid \<in> fst ` set (players e))
       \<and> (pid \<in> fst ` set (players e) \<longrightarrow> e' = e \<and> w' = w)
       \<and> (pid \<notin> fst ` set (players e) \<longrightarrow>
            (\<exists>player. res = Inr player \<and>
               player_id player = pid \<and> username player = uname \<and>
               level player = 1 \<and> experience player = 0 \<and> total_points player = 0 \<and>
               achievements player = [] \<and> challenges player = [] \<and>
               players e' = players e @ [(pid, player)] \<and>
               get_player e' pid = Some player))"
proof (cases "map_of (players e) pid = None")
  case True
  then have notin: "pid \<notin> fst ` set (players e)" by (simp add: map_of_None_iff)
  obtain player v where init: "Player_init pid uname w = (player, v)"
    by (cases "Player_init pid uname w")
  have res: "res = Inr player" "e' = put_player pid player e" "w' = v"
    using assms True init by (auto simp: register_player_def)
  have fields: "player_id player = pid" "username player = uname" "level player = 1"
    "experience player = 0" "total_points player = 0" "achievements player = []"
    "challenges player = []"
    using init by (auto simp: Player_init_def now_def)
  have stored: "players e' = players e @ [(pid, player)]"
    using res True by (simp add: put_player_def update_fresh)
  have "get_player e' pid = Some player"
    using stored True by (simp add: get_player_def map_add_def)
  with notin res fields stored show ?thesis by simp
next
  case False
  then have "pid \<in> fst ` set (players e)" by (simp add: map_of_None_iff)
  with assms False show ?thesis by (auto simp: register_player_def)
qed

theorem register_player_duplicate_witness:
  "(case register_player ''p1'' ''alice'' GameEngine_init (init_world int) of (res, e', w') \<Rightarrow>
      (\<exists>player. res = Inr player \<and> level player = 1 \<and> players e' = [(''p1'', player)]) \<and>
      (case register_player ''p1'' ''bob'' e' w' of (res2, e2, w2) \<Rightarrow>
         res2 = Inl (ValueError ''Player p1 already exists'') \<and> e2 = e' \<and> w2 = w'))"
proof -
  obtain res e' w' where first:
    "register_player ''p1'' ''alice'' GameEngine_init (init_world int) = (res, e', w')"
    by (metis prod_cases3)
  obtain res2 e2 w2 where second: "register_player ''p1'' ''bob'' e' w' = (res2, e2, w2)"
    by (metis prod_cases3)
  have empty: "players GameEngine_init = []" by (simp add: GameEngine_init_def)
  from register_player_duplicate [OF first] empty
  obtain player where p: "res = Inr player" "level player = 1" "players e' = [(''p1'', player)]"
    by auto
  from register_player_duplicate [OF second] p
  have "e2 = e'" "w2 = w'" by auto
  moreover have "res2 = Inl (ValueError ''Player p1 already exists'')"
    using second p by (simp add: register_player_def)
  ultimately show ?thesis using first second p by simp
qed

section \<open>Completing a challenge\<close>

lemmas fixture_defs = drill_def drill_world_def drilling_player_def quiz_def quiz_world_def
  quiz_player_def init_world_def new_challenge_def start_challenge_def Player_init_def now_def

lemma increase_skills_eq:
  "increase_skills skills p =
     p\<lparr>skill_levels := (\<lambda>s. skill_levels p s + int (count_list skills s))\<rparr>"
proof (induction skills arbitrary: p)
  case Nil
  then show ?case by simp
next
  case (Cons skill skills)
  have "(\<lambda>s. ((skill_levels p)(skill := skill_levels p skill + 1)) s + int (count_list skills s))
      = (\<lambda>s. skill_levels p s + int (count_list (skill # skills) s))"
    by (rule ext) simp
  then show ?case by (simp add: Cons.IH)
qed

lemma count_list_distinct:
  "distinct xs \<Longrightarrow> count_list xs x = (if x \<in> set xs then 1 else 0)"
  by (induction xs) auto

lemma complete_challenge_unknown:
  "map_of (challenges p) cid = None \<Longrightarrow> complete_challenge cid p w = (False, p, w)"
  by (simp add: complete_challenge_def)

lemma complete_challenge_done:
  "map_of (challenges p) cid = Some r \<Longrightarrow> completed (heap w r) \<Longrightarrow>
     complete_challenge cid p w = (False, p, w)"
  by (simp add: complete_challenge_def)

text \<open>
  Claim C5, as amended. \<open>complete_challenge\<close> returns \<open>False\<close> exactly when the
  id is not among the player's challenges or the object assigned under it is already
  completed, and then player and world are unchanged. Otherwise it returns \<open>True\<close>,
  sets the flag of the object, stamps \<open>completed_at\<close> with the reading of the clock,
  leaves every other object alone, adds the points to \<open>total_points\<close> and to the
  experience (with one level-up when the threshold is reached), and raises the level of
  each skill by the number of times the skill occurs in the challenge's list of skills:
  by exactly 1 for every targeted skill when the list has no repetition.
\<close>

theorem complete_challenge_effect:
  assumes "complete_challenge cid p w = (ok, p', w')"
  shows "(\<not> ok \<longleftrightarrow>
            cid \<notin> fst ` set (challenges p) \<or>
            (\<exists>r. map_of (challenges p) cid = Some r \<and> completed (heap w r)))
       \<and> (\<not> ok \<longrightarrow> p' = p \<and> w' = w)
       \<and> (ok \<longrightarrow>
            (\<exists>r. map_of (challenges p) cid = Some r \<and>
               completed (heap w' r) \<and>
               completed_at (heap w' r) = Some (clock w (reads w)) \<and>
               (\<forall>r'. r' \<noteq> r \<longrightarrow> heap w' r' = heap w r') \<and>
               total_points p' = total_points p + ch_points (heap w r) \<and>
               level p' =
                 (if 100 * level p \<le> experience p + ch_points (heap w r)
                  then level p + 1 else level p) \<and>
               experience p' =
                 (if 100 * level p \<le> experience p + ch_points (heap w r)
                  then experience p + ch_points (heap w r) - 100 * level p
                  else experience p + ch_points (heap w r)) \<and>
               (\<forall>s. skill_levels p' s =
                     skill_levels p s + int (count_list (ch_skills (heap w r)) s)) \<and>
               (distinct (ch_skills (heap w r)) \<longrightarrow>
                  (\<forall>s. skill_levels p' s =
                     (if s \<in> set (ch_skills (heap w r)) then skill_levels p s + 1
                      else skill_levels p s)))))"
proof (cases "map_of (challenges p) cid")
  case None
  then have "cid \<notin> fst ` set (challenges p)" by (simp add: map_of_eq_None_iff)
  with None assms show ?thesis by (simp add: complete_challenge_def)
next
  case (Some r)
  show ?thesis
  proof (cases "completed (heap w r)")
    case True
    with Some assms show ?thesis by (simp add: complete_challenge_def)
  next
    case False
    have known: "cid \<in> fst ` set (challenges p)"
      using Some by (metis map_of_eq_None_iff option.distinct(1))
    from Some False assms have ok: "ok"
      and p': "p' = p\<lparr>total_points := total_points p + ch_points (heap w r),
                 experience :=
                   (if 100 * level p \<le> experience p + ch_points (heap w r)
                    then experience p + ch_points (heap w r) - 100 * level p
                    else experience p + ch_points (heap w r)),
                 last_active := clock w (Suc (reads w)),
                 level :=
                   (if 100 * level p \<le> experience p + ch_points (heap w r)
                    then level p + 1 else level p),
                 skill_levels :=
                   (\<lambda>s. skill_levels p s + int (count_list (ch_skills (heap w r)) s))\<rparr>"
      and w': "w' = w\<lparr>heap := (heap w)(r := (heap w r)\<lparr>completed := True,
                         completed_at := Some (clock w (reads w))\<rparr>),
                 reads := Suc (Suc (reads w))\<rparr>"
      by (auto simp: complete_challenge_def set_completed_def set_completed_at_def now_def
            add_experience_cases increase_skills_eq Let_def split: if_splits)
    show ?thesis
      unfolding p' w' using ok known Some False
      by (simp add: count_list_distinct)
  qed
qed

theorem complete_challenge_effect_witness:
  "(case complete_challenge ''quiz'' quiz_player quiz_world of (ok, p', w') \<Rightarrow>
      ok \<and> total_points p' = 10 \<and> experience p' = 10 \<and> level p' = 1 \<and>
      skill_levels p' PROGRAMMING = 1 \<and> skill_levels p' NLP = 0 \<and>
      completed (heap w' 0) \<and> completed_at (heap w' 0) = Some 2 \<and>
      complete_challenge ''quiz'' p' w' = (False, p', w'))"
proof -
  obtain ok p' w' where first: "complete_challenge ''quiz'' quiz_player quiz_world = (ok, p', w')"
    by (metis prod_cases3)
  obtain ok2 p2 w2 where second: "complete_challenge ''quiz'' p' w' = (ok2, p2, w2)"
    by (metis prod_cases3)
  have held: "map_of (challenges quiz_player) ''quiz'' = Some 0"
    and before: "\<not> completed (heap quiz_world 0)" "ch_points (heap quiz_world 0) = 10"
      "ch_skills (heap quiz_world 0) = [PROGRAMMING]" "clock quiz_world (reads quiz_world) = 2"
      "total_points quiz_player = 0" "experience quiz_player = 0" "level quiz_player = 1"
      "skill_levels quiz_player = (\<lambda>s. 0)"
    by (simp_all add: fixture_defs)
  have known: "''quiz'' \<in> fst ` set (challenges quiz_player)"
    by (simp add: fixture_defs)
  from complete_challenge_effect [OF first] held before known
  have ok: "ok" by auto
  from complete_challenge_effect [OF first] ok held before
  have after: "total_points p' = 10" "experience p' = 10" "level p' = 1"
      "skill_levels p' PROGRAMMING = 1" "skill_levels p' NLP = 0"
      "completed (heap w' 0)" "completed_at (heap w' 0) = Some 2"
    by auto
  have same: "challenges p' = challenges quiz_player"
    using first held before
    by (auto simp: complete_challenge_def set_completed_def set_completed_at_def now_def
          add_experience_cases increase_skills_eq Let_def split: if_splits)
  from complete_challenge_effect [OF second] same held after
  have "\<not> ok2" "p2 = p'" "w2 = w'" by auto
  with second ok after show ?thesis by (simp add: first)
qed

text \<open>
  Claim C5 as stated fails where a challenge lists a skill twice: the loop over the list
  raises that skill's level once per occurrence, here by 2.
\<close>

theorem complete_challenge_skill_twice:
  "fst (complete_challenge ''drill'' drilling_player drill_world)
   \<and> ch_skills (heap drill_world 0) = [NLP, NLP]
   \<and> skill_levels drilling_player NLP = 0
   \<and> skill_levels (fst (snd (complete_challenge ''drill'' drilling_player drill_world))) NLP = 2"
  by (simp add: fixture_defs complete_challenge_def set_completed_def set_completed_at_def
        add_experience_cases)

section \<open>One challenge object for the catalog and every player\<close>

text \<open>
  Claim C2. The claim says that when one catalog challenge is assigned to two players
  and the first completes it, the second player's instance and the catalog entry stay
  uncompleted and the second player can still complete it for its points. In the code
  \<open>assign_challenge\<close> hands the catalog's own object to both players, so after the
  first completion the one shared object is completed: the catalog entry and the second
  player's challenge read completed, and the second player's completion returns
  \<open>False\<close> and awards nothing.
\<close>

theorem shared_challenge_completed_for_all:
  "(case two_players_one_quiz of (e, w) \<Rightarrow>
      map_of (challenge_catalog e) ''quiz'' = Some 0 \<and>
      map (\<lambda>(k, p). (k, challenges p)) (players e)
        = [(''p1'', [(''quiz'', 0)]), (''p2'', [(''quiz'', 0)])] \<and>
      \<not> completed (heap w 0) \<and>
      (case complete_player_challenge ''p1'' ''quiz'' e w of (ok1, e1, w1) \<Rightarrow>
         ok1 \<and> completed (heap w1 0) \<and>
         map (\<lambda>(k, p). (k, total_points p, map completed (challenge_objects p w1))) (players e1)
           = [(''p1'', 10, [True]), (''p2'', 0, [True])] \<and>
         (case complete_player_challenge ''p2'' ''quiz'' e1 w1 of (ok2, e2, w2) \<Rightarrow>
            \<not> ok2 \<and>
            map (\<lambda>(k, p). (k, total_points p)) (players e2) = [(''p1'', 10), (''p2'', 0)])))"
  by (simp add: two_players_one_quiz_def quiz_def GameEngine_init_def init_world_def
        new_challenge_def add_challenge_def register_player_def Player_init_def now_def
        put_player_def assign_challenge_def get_player_def start_challenge_def
        complete_player_challenge_def complete_challenge_def set_completed_def
        set_completed_at_def add_experience_cases trigger_event_def check_achievements_def
        challenge_objects_def)

section \<open>Leaderboard\<close>

lemmas engine_defs = GameEngine_init_def init_world_def
        new_challenge_def add_challenge_def register_player_def Player_init_def now_def
        put_player_def assign_challenge_def get_player_def start_challenge_def
        complete_player_challenge_def complete_challenge_def set_completed_def
        set_completed_at_def add_experience_cases trigger_event_def check_achievements_def
        award_experience_def add_achievement_rule_def on_def

lemma podium_points: "map (\<lambda>(k, p). total_points p) (players (fst podium)) = [30, 10, 20]"
  by (simp add: podium_def quiz_def engine_defs)


lemma rows_length: "length (fst (leaderboard_rows ips w)) = length ips"
  by (induction ips w rule: leaderboard_rows.induct) (auto split: prod.splits)

lemma rows_rank:
  "map rank (fst (leaderboard_rows ips w)) = map (\<lambda>(idx, p). int idx + 1) ips"
  by (induction ips w rule: leaderboard_rows.induct)
     (auto split: prod.splits simp: with_rank_def summary.extend_def)

lemma rows_points:
  "map s_total_points (fst (leaderboard_rows ips w)) = map (\<lambda>(idx, p). total_points p) ips"
  by (induction ips w rule: leaderboard_rows.induct)
     (auto split: prod.splits simp: with_rank_def summary.extend_def get_progress_summary_def now_def)

lemma rows_username:
  "map s_username (fst (leaderboard_rows ips w)) = map (\<lambda>(idx, p). username p) ips"
  by (induction ips w rule: leaderboard_rows.induct)
     (auto split: prod.splits simp: with_rank_def summary.extend_def get_progress_summary_def now_def)

lemma enumerate_snd: "map (\<lambda>(idx, p). f p) (enumerate n xs) = map f xs"
  by (induction xs arbitrary: n) auto

lemma enumerate_fst: "map (\<lambda>(idx, p). int idx + 1) (enumerate n xs) = map (\<lambda>i. int i + 1) [n..<n + length xs]"
proof (induction xs arbitrary: n)
  case Nil
  then show ?case by simp
next
  case (Cons x xs)
  have "[n..<n + length (x # xs)] = n # [Suc n..<Suc n + length xs]"
    by (subst upt_rec) simp
  with Cons.IH [of "Suc n"] show ?case by simp
qed

lemma sorted_players_desc: "sorted_wrt (\<lambda>a b. total_points b \<le> total_points a) (sorted_players e)"
proof -
  have "sorted (map (\<lambda>p. - total_points p) (sorted_players e))"
    unfolding sorted_players_def by (rule sorted_sort_key)
  then show ?thesis by (simp add: sorted_wrt_map)
qed

lemma sorted_players_stable:
  "filter (\<lambda>p. total_points p = k) (sorted_players e)
     = filter (\<lambda>p. total_points p = k) (map snd (players e))"
  using sort_key_stable [of "\<lambda>p. - total_points p" "- k" "map snd (players e)"]
  by (simp add: sorted_players_def)

lemma sorted_players_mset: "mset (sorted_players e) = mset (map snd (players e))"
  by (simp add: sorted_players_def)

lemma take_min_length: "take (min (length xs) k) xs = take k xs"
  by (cases "k \<le> length xs") (simp_all add: min_def)

lemma slice_to_take: "slice_to n xs = take (length (slice_to n xs)) xs"
  by (simp add: slice_to_def take_min_length)

lemma slice_to_length:
  "length (slice_to n xs) = (if 0 \<le> n then min (nat n) (length xs) else length xs - nat (- n))"
  by (auto simp: slice_to_def)

text \<open>
  Claim C7. \<open>get_leaderboard top_n\<close> sorts the registered players by
  \<open>total_points\<close> in descending order, players with equal points staying in
  registration order, and returns the summaries of a prefix of that sequence, each with
  its 1-based position as rank. For a number \<open>top_n \<ge> 0\<close> of entries asked for, the
  prefix has the first \<open>top_n\<close> players (all of them when there are fewer), so at most
  \<open>top_n\<close> entries. With three players holding 30, 10 and 20 points and
  \<open>top_n \<ge> 3\<close>, the ranks 1, 2, 3 go to the points 30, 20, 10. (The length of the
  result is given for every integer \<open>top_n\<close>, as the slice computes it.)
\<close>

theorem get_leaderboard_ranking:
  assumes "get_leaderboard top_n e w = (rows, w')"
  shows "sorted_wrt (\<lambda>a b. total_points b \<le> total_points a) (sorted_players e)
       \<and> mset (sorted_players e) = mset (map snd (players e))
       \<and> (\<forall>k. filter (\<lambda>p. total_points p = k) (sorted_players e)
                = filter (\<lambda>p. total_points p = k) (map snd (players e)))
       \<and> map s_total_points rows = map total_points (take (length rows) (sorted_players e))
       \<and> map s_username rows = map username (take (length rows) (sorted_players e))
       \<and> sorted_wrt (\<lambda>a b. b \<le> a) (map s_total_points rows)
       \<and> map rank rows = map (\<lambda>i. int i + 1) [0..<length rows]
       \<and> length rows =
           (if 0 \<le> top_n then min (nat top_n) (length (players e))
            else length (players e) - nat (- top_n))
       \<and> (0 \<le> top_n \<longrightarrow> int (length rows) \<le> top_n)
       \<and> (map (\<lambda>(k, p). total_points p) (players e) = [30, 10, 20] \<and> 3 \<le> top_n \<longrightarrow>
            map (\<lambda>r. (rank r, s_total_points r)) rows = [(1, 30), (2, 20), (3, 10)])"
proof -
  let ?chosen = "slice_to top_n (sorted_players e)"
  have rows: "rows = fst (leaderboard_rows (enumerate 0 ?chosen) w)"
    using assms by (simp add: get_leaderboard_def)
  have len: "length rows = length ?chosen"
    by (simp add: rows rows_length)
  have chosen: "?chosen = take (length rows) (sorted_players e)"
    using slice_to_take [of top_n "sorted_players e"] by (simp add: len)
  have size: "length (sorted_players e) = length (players e)"
    by (simp add: sorted_players_def)
  have points: "map s_total_points rows = map total_points ?chosen"
    by (simp add: rows rows_points enumerate_snd)
  have names: "map s_username rows = map username ?chosen"
    by (simp add: rows rows_username enumerate_snd)
  have ranks: "map rank rows = map (\<lambda>i. int i + 1) [0..<length rows]"
    using enumerate_fst [of 0 ?chosen] by (simp add: rows rows_rank rows_length)
  have count: "length rows =
           (if 0 \<le> top_n then min (nat top_n) (length (players e))
            else length (players e) - nat (- top_n))"
    by (simp add: len slice_to_length size)
  have desc: "sorted_wrt (\<lambda>a b. b \<le> a) (map s_total_points rows)"
  proof -
    have "sorted_wrt (\<lambda>a b. total_points b \<le> total_points a) (take (length rows) (sorted_players e))"
      using sorted_players_desc by (rule sorted_wrt_take)
    then show ?thesis by (simp add: points chosen sorted_wrt_map)
  qed
  have example: "map (\<lambda>r. (rank r, s_total_points r)) rows = [(1, 30), (2, 20), (3, 10)]"
    if pts: "map (\<lambda>(k, p). total_points p) (players e) = [30, 10, 20]" and n: "3 \<le> top_n"
  proof -
    from pts obtain a b c where abc: "map snd (players e) = [a, b, c]"
      "total_points a = 30" "total_points b = 10" "total_points c = 20"
      by (auto simp: map_eq_Cons_conv)
    then have "sorted_players e = [a, c, b]" by (simp add: sorted_players_def)
    with n have "?chosen = [a, c, b]" by (simp add: slice_to_def)
    with abc have three: "length rows = 3" and pts3: "map s_total_points rows = [30, 20, 10]"
      using points len by simp_all
    have "[0..<3] = [0, 1, 2]" by (simp add: upt_rec)
    with ranks three have "map rank rows = [1, 2, 3]" by simp
    with pts3 show ?thesis
      by (auto simp: map_eq_Cons_conv)
  qed
  have c1: "sorted_wrt (\<lambda>a b. total_points b \<le> total_points a) (sorted_players e)"
    by (rule sorted_players_desc)
  have c2: "mset (sorted_players e) = mset (map snd (players e))"
    by (rule sorted_players_mset)
  have c3: "\<forall>k. filter (\<lambda>p. total_points p = k) (sorted_players e)
                = filter (\<lambda>p. total_points p = k) (map snd (players e))"
    by (simp add: sorted_players_stable)
  have c4: "map s_total_points rows = map total_points (take (length rows) (sorted_players e))"
    using points chosen by simp
  have c5: "map s_username rows = map username (take (length rows) (sorted_players e))"
    using names chosen by simp
  have c6: "0 \<le> top_n \<longrightarrow> int (length rows) \<le> top_n"
    using count by auto
  have c7: "map (\<lambda>(k, p). total_points p) (players e) = [30, 10, 20] \<and> 3 \<le> top_n \<longrightarrow>
            map (\<lambda>r. (rank r, s_total_points r)) rows = [(1, 30), (2, 20), (3, 10)]"
    using example by (intro impI) (elim conjE)
  from c1 c2 c3 c4 c5 desc ranks count c6 c7 show ?thesis
    by blast
qed

theorem get_leaderboard_ranking_witness:
  "(case get_leaderboard 10 (fst podium) (snd podium) of (rows, w') \<Rightarrow>
      map (\<lambda>r. (rank r, s_total_points r)) rows = [(1, 30), (2, 20), (3, 10)] \<and>
      length rows = 3 \<and> int (length rows) \<le> 10)"
proof -
  obtain rows w' where board: "get_leaderboard 10 (fst podium) (snd podium) = (rows, w')"
    by (cases "get_leaderboard 10 (fst podium) (snd podium)")
  note ranking = get_leaderboard_ranking [OF board]
  from ranking
  have example: "map (\<lambda>(k, p). total_points p) (players (fst podium)) = [30, 10, 20] \<and> (3::int) \<le> 10
          \<longrightarrow> map (\<lambda>r. (rank r, s_total_points r)) rows = [(1, 30), (2, 20), (3, 10)]"
    by (elim conjE)
  from ranking have bound: "(0::int) \<le> 10 \<longrightarrow> int (length rows) \<le> 10"
    by (elim conjE)
  from example bound podium_points
  have "map (\<lambda>r. (rank r, s_total_points r)) rows = [(1, 30), (2, 20), (3, 10)]"
    and "int (length rows) \<le> 10" by simp_all
  moreover from this(1) have "length rows = 3"
    by (auto simp: map_eq_Cons_conv)
  ultimately show ?thesis by (simp add: board)
qed

section \<open>The pass over the achievement rules\<close>

lemma trigger_event_trace:
  "trace (trigger_event e event p arg w) =
     trace w @ (case map_of (event_listeners e) event of
                  None \<Rightarrow> []
                | Some ls \<Rightarrow> [\<lparr>f_event = event, f_player = p, f_arg = arg, f_listeners = ls\<rparr>])"
  by (simp add: trigger_event_def split: option.splits)

lemma trigger_event_frame:
  "heap (trigger_event e event p arg w) = heap w"
  "reads (trigger_event e event p arg w) = reads w"
  "clock (trigger_event e event p arg w) = clock w"
  "next_ref (trigger_event e event p arg w) = next_ref w"
  by (simp_all add: trigger_event_def split: option.splits)

lemma earn_achievement_frame:
  assumes "earn_achievement a p w = (p', w')"
  shows "trace w' = trace w" "heap w' = heap w" "player_id p' = player_id p"
    "challenges p' = challenges p" "next_ref w' = next_ref w"
  using assms
  by (auto simp: earn_achievement_def add_experience_cases split: if_splits)

lemma earn_achievement_new:
  assumes "earn_achievement a p w = (p', w')"
    and "ach_id a \<notin> set (map ach_id (achievements p))"
  shows "achievements p' = achievements p @ [a]"
  using assms
  by (auto simp: earn_achievement_def add_experience_cases split: if_splits)

lemma complete_challenge_frame:
  assumes "complete_challenge cid p w = (ok, p', w')"
  shows "trace w' = trace w" "player_id p' = player_id p" "achievements p' = achievements p"
    "next_ref w' = next_ref w"
  using assms
  by (auto simp: complete_challenge_def set_completed_def set_completed_at_def now_def
        add_experience_cases increase_skills_eq Let_def split: option.splits if_splits)

lemma list_ex_ach_id:
  "list_ex (\<lambda>a. ach_id a = k) as \<longleftrightarrow> k \<in> set (map ach_id as)"
  by (auto simp: list_ex_iff)

text \<open>The pass over the rules: what it grants and what it fires.\<close>

lemma check_loop_grants:
  assumes "check_loop e rules acc p w = (new, p', w')"
  shows "\<exists>granted ts.
           new = acc @ granted \<and>
           achievements p' = achievements p @ granted \<and>
           subseq granted (map achievement rules) \<and>
           distinct (map ach_id granted) \<and>
           set (map ach_id granted) \<inter> set (map ach_id (achievements p)) = {} \<and>
           trace w' = trace w @ ts \<and>
           (\<forall>f \<in> set ts. f_event f = ''achievement_earned'' \<and>
                          player_id (f_player f) = player_id p \<and>
                          (\<exists>a. f_arg f = AchievementArg a \<and>
                               ach_id a \<in> set (map ach_id (achievements (f_player f))))) \<and>
           (case map_of (event_listeners e) ''achievement_earned'' of
              None \<Rightarrow> ts = []
            | Some ls \<Rightarrow> map f_arg ts = map AchievementArg granted \<and>
                         (\<forall>f \<in> set ts. f_listeners f = ls)) \<and>
           player_id p' = player_id p \<and> challenges p' = challenges p \<and>
           heap w' = heap w \<and> next_ref w' = next_ref w"
  using assms
proof (induction rules arbitrary: acc p w)
  case Nil
  then show ?case by (auto split: option.splits)
next
  case (Cons rule rules)
  let ?a = "achievement rule"
  show ?case
  proof (cases "ach_id ?a \<notin> set (map ach_id (achievements p)) \<and> check rule p w")
    case False
    then have "check_loop e rules acc p w = (new, p', w')"
      using Cons.prems by (auto simp: list_ex_ach_id)
    from Cons.IH [OF this] obtain granted ts where g:
      "new = acc @ granted" "achievements p' = achievements p @ granted"
      "subseq granted (map achievement rules)" "distinct (map ach_id granted)"
      "set (map ach_id granted) \<inter> set (map ach_id (achievements p)) = {}"
      "trace w' = trace w @ ts"
      "\<forall>f \<in> set ts. f_event f = ''achievement_earned'' \<and>
                          player_id (f_player f) = player_id p \<and>
                          (\<exists>a. f_arg f = AchievementArg a \<and>
                               ach_id a \<in> set (map ach_id (achievements (f_player f))))"
      "case map_of (event_listeners e) ''achievement_earned'' of
              None \<Rightarrow> ts = []
            | Some ls \<Rightarrow> map f_arg ts = map AchievementArg granted \<and>
                         (\<forall>f \<in> set ts. f_listeners f = ls)"
      "player_id p' = player_id p" "challenges p' = challenges p"
      "heap w' = heap w" "next_ref w' = next_ref w"
      by blast
    have "subseq granted (map achievement (rule # rules))"
      using g(3) by (auto intro: list_emb_Cons)
    with g show ?thesis by blast
  next
    case True
    obtain p1 w1 where earn: "earn_achievement ?a p w = (p1, w1)"
      by (cases "earn_achievement ?a p w")
    let ?w2 = "trigger_event e ''achievement_earned'' p1 (AchievementArg ?a) w1"
    have rec: "check_loop e rules (acc @ [?a]) p1 ?w2 = (new, p', w')"
      using Cons.prems True earn by (auto simp: list_ex_ach_id)
    have app: "achievements p1 = achievements p @ [?a]"
      using earn_achievement_new [OF earn] True by simp
    note fr = earn_achievement_frame [OF earn]
    from Cons.IH [OF rec] obtain granted ts where g:
      "new = (acc @ [?a]) @ granted" "achievements p' = achievements p1 @ granted"
      "subseq granted (map achievement rules)" "distinct (map ach_id granted)"
      "set (map ach_id granted) \<inter> set (map ach_id (achievements p1)) = {}"
      "trace w' = trace ?w2 @ ts"
      "\<forall>f \<in> set ts. f_event f = ''achievement_earned'' \<and>
                          player_id (f_player f) = player_id p1 \<and>
                          (\<exists>a. f_arg f = AchievementArg a \<and>
                               ach_id a \<in> set (map ach_id (achievements (f_player f))))"
      "case map_of (event_listeners e) ''achievement_earned'' of
              None \<Rightarrow> ts = []
            | Some ls \<Rightarrow> map f_arg ts = map AchievementArg granted \<and>
                         (\<forall>f \<in> set ts. f_listeners f = ls)"
      "player_id p' = player_id p1" "challenges p' = challenges p1"
      "heap w' = heap ?w2" "next_ref w' = next_ref ?w2"
      by blast
    let ?fired = "case map_of (event_listeners e) ''achievement_earned'' of
                  None \<Rightarrow> []
                | Some ls \<Rightarrow> [\<lparr>f_event = ''achievement_earned'', f_player = p1,
                               f_arg = AchievementArg ?a, f_listeners = ls\<rparr>]"
    have tr: "trace w' = trace w @ (?fired @ ts)"
      using g(6) fr(1) by (simp add: trigger_event_trace)
    have c1: "new = acc @ (?a # granted)" using g(1) by simp
    have c2: "achievements p' = achievements p @ (?a # granted)" using g(2) app by simp
    have c3: "subseq (?a # granted) (map achievement (rule # rules))" using g(3) by simp
    have c4: "distinct (map ach_id (?a # granted))" using g(4,5) app by auto
    have c5: "set (map ach_id (?a # granted)) \<inter> set (map ach_id (achievements p)) = {}"
      using g(5) app True by auto
    have c6: "\<forall>f \<in> set (?fired @ ts). f_event f = ''achievement_earned'' \<and>
                          player_id (f_player f) = player_id p \<and>
                          (\<exists>a. f_arg f = AchievementArg a \<and>
                               ach_id a \<in> set (map ach_id (achievements (f_player f))))"
      using g(7) fr(3) app by (auto split: option.splits)
    have c7: "case map_of (event_listeners e) ''achievement_earned'' of
              None \<Rightarrow> ?fired @ ts = []
            | Some ls \<Rightarrow> map f_arg (?fired @ ts) = map AchievementArg (?a # granted) \<and>
                         (\<forall>f \<in> set (?fired @ ts). f_listeners f = ls)"
      using g(8) by (auto split: option.splits)
    have c8: "player_id p' = player_id p" "challenges p' = challenges p"
      "heap w' = heap w" "next_ref w' = next_ref w"
      using g(9-12) fr by (simp_all add: trigger_event_frame)
    from c1 c2 c3 c4 c5 tr c6 c7 c8 show ?thesis by blast
  qed
qed

section \<open>Where \<open>level_up\<close> is fired\<close>

lemma check_achievements_level_ups:
  assumes "check_achievements e p w = (new, p', w')"
  shows "level_up_firings w' = level_up_firings w"
proof -
  from check_loop_grants [OF assms [unfolded check_achievements_def]]
  obtain ts where "trace w' = trace w @ ts" "\<forall>f \<in> set ts. f_event f = ''achievement_earned''"
    by blast
  then show ?thesis by (simp add: level_up_firings_def)
qed

lemma trigger_event_level_ups:
  "event \<noteq> ''level_up'' \<Longrightarrow>
     level_up_firings (trigger_event e event p arg w) = level_up_firings w"
  by (simp add: level_up_firings_def trigger_event_trace split: option.splits)

lemma complete_player_challenge_level_ups:
  assumes "complete_player_challenge pid cid e w = (ok, e', w')"
  shows "level_up_firings w' = level_up_firings w"
proof (cases "get_player e pid")
  case None
  with assms show ?thesis by (simp add: complete_player_challenge_def)
next
  case (Some player)
  obtain success p1 w1 where cc: "complete_challenge cid player w = (success, p1, w1)"
    by (metis prod_cases3)
  have tr: "level_up_firings w1 = level_up_firings w"
    using complete_challenge_frame(1) [OF cc] by (simp add: level_up_firings_def)
  show ?thesis
  proof (cases success)
    case False
    with assms Some cc tr show ?thesis by (simp add: complete_player_challenge_def)
  next
    case True
    let ?w2 = "trigger_event e ''challenge_completed'' p1 (ChallengeIdArg cid) w1"
    obtain new p2 w2 where ca: "check_achievements e p1 ?w2 = (new, p2, w2)"
      by (metis prod_cases3)
    have "w' = w2" using assms Some cc True ca by (simp add: complete_player_challenge_def)
    with check_achievements_level_ups [OF ca] tr show ?thesis
      by (simp add: trigger_event_level_ups)
  qed
qed

lemma award_experience_level_ups:
  assumes "award_experience pid amount e w = (leveled_up, e', w')"
  shows "(leveled_up \<longrightarrow>
            (\<exists>player q v. get_player e pid = Some player \<and>
               add_experience amount player w = (True, q, v) \<and>
               level_up_firings w' = level_up_firings w @
                 (case map_of (event_listeners e) ''level_up'' of
                    None \<Rightarrow> []
                  | Some ls \<Rightarrow> [\<lparr>f_event = ''level_up'', f_player = q, f_arg = NoArg,
                                 f_listeners = ls\<rparr>])))
       \<and> (\<not> leveled_up \<longrightarrow>
            level_up_firings w' = level_up_firings w \<and>
            (\<forall>player. get_player e pid = Some player \<longrightarrow>
               \<not> fst (add_experience amount player w)))"
proof (cases "get_player e pid")
  case None
  with assms show ?thesis by (simp add: award_experience_def)
next
  case (Some player)
  obtain b p1 w1 where ae: "add_experience amount player w = (b, p1, w1)"
    by (metis prod_cases3)
  have tr: "trace w1 = trace w" using add_experience_frame [OF ae] by simp
  let ?w2 = "if b then trigger_event e ''level_up'' p1 NoArg w1 else w1"
  obtain new p2 w2 where ca: "check_achievements e p1 ?w2 = (new, p2, w2)"
    by (metis prod_cases3)
  have res: "leveled_up = b" "w' = w2"
    using assms Some ae ca by (simp_all add: award_experience_def)
  have "level_up_firings w2 = level_up_firings ?w2"
    by (rule check_achievements_level_ups [OF ca])
  then show ?thesis
    using res Some ae tr
    by (auto simp: level_up_firings_def trigger_event_trace split: option.splits)
qed

lemma step_level_ups:
  assumes "\<forall>pid amount. c \<noteq> AwardExperience pid amount"
  shows "level_up_firings (snd (step c (e, w))) = level_up_firings w"
proof (cases c)
  case (RegisterPlayer pid uname)
  then show ?thesis
    by (simp add: register_player_def Player_init_def now_def level_up_firings_def)
next
  case (CompletePlayerChallenge pid cid)
  obtain ok e' w' where "complete_player_challenge pid cid e w = (ok, e', w')"
    by (metis prod_cases3)
  with CompletePlayerChallenge complete_player_challenge_level_ups [OF this]
  show ?thesis by simp
next
  case (AwardExperience pid amount)
  with assms show ?thesis by simp
qed (simp_all add: level_up_firings_def new_challenge_def)

text \<open>
  Claim C8. The event \<open>level_up\<close> is fired by \<open>award_experience\<close> alone, and
  only when its own call of \<open>add_experience\<close> returns \<open>True\<close>: then one firing
  is added (when the event has its entry in the listener registry), with the player as
  \<open>add_experience\<close> left it. \<open>complete_player_challenge\<close>, through
  \<open>Player.complete_challenge\<close>, \<open>Player.earn_achievement\<close> and the pass over the
  achievement rules add no firing of \<open>level_up\<close>, whatever they do to the level, and
  neither does any other call on the engine.
\<close>

theorem level_up_fired_only_by_award_experience:
  "(complete_player_challenge pid cid e w = (ok, e1, w1) \<longrightarrow>
      level_up_firings w1 = level_up_firings w)
 \<and> (complete_challenge cid p w = (ok2, p2, w2) \<longrightarrow> trace w2 = trace w)
 \<and> (earn_achievement a p w = (p3, w3) \<longrightarrow> trace w3 = trace w)
 \<and> (check_achievements e p w = (new, p4, w4) \<longrightarrow>
      level_up_firings w4 = level_up_firings w)
 \<and> (award_experience pid amount e w = (leveled_up, e5, w5) \<longrightarrow>
      (leveled_up \<longrightarrow>
         (\<exists>player q v. get_player e pid = Some player \<and>
            add_experience amount player w = (True, q, v) \<and>
            level_up_firings w5 = level_up_firings w @
              (case map_of (event_listeners e) ''level_up'' of
                 None \<Rightarrow> []
               | Some ls \<Rightarrow> [\<lparr>f_event = ''level_up'', f_player = q, f_arg = NoArg,
                              f_listeners = ls\<rparr>]))) \<and>
      (\<not> leveled_up \<longrightarrow>
         level_up_firings w5 = level_up_firings w \<and>
         (\<forall>player. get_player e pid = Some player \<longrightarrow>
            \<not> fst (add_experience amount player w))))
 \<and> ((\<forall>pid' amount'. c \<noteq> AwardExperience pid' amount') \<longrightarrow>
      level_up_firings (snd (step c (e, w))) = level_up_firings w)"
proof (intro conjI impI)
  assume "complete_player_challenge pid cid e w = (ok, e1, w1)"
  then show "level_up_firings w1 = level_up_firings w"
    by (rule complete_player_challenge_level_ups)
next
  assume "complete_challenge cid p w = (ok2, p2, w2)"
  then show "trace w2 = trace w" by (rule complete_challenge_frame)
next
  assume "earn_achievement a p w = (p3, w3)"
  then show "trace w3 = trace w" by (rule earn_achievement_frame)
next
  assume "check_achievements e p w = (new, p4, w4)"
  then show "level_up_firings w4 = level_up_firings w"
    by (rule check_achievements_level_ups)
next
  assume award: "award_experience pid amount e w = (leveled_up, e5, w5)"
  {
    assume leveled_up
    with award_experience_level_ups [OF award]
    show "\<exists>player q v. get_player e pid = Some player \<and>
            add_experience amount player w = (True, q, v) \<and>
            level_up_firings w5 = level_up_firings w @
              (case map_of (event_listeners e) ''level_up'' of
                 None \<Rightarrow> []
               | Some ls \<Rightarrow> [\<lparr>f_event = ''level_up'', f_player = q, f_arg = NoArg,
                              f_listeners = ls\<rparr>])"
      by blast
  next
    assume "\<not> leveled_up"
    with award_experience_level_ups [OF award]
    show "level_up_firings w5 = level_up_firings w" by blast
  next
    assume "\<not> leveled_up"
    with award_experience_level_ups [OF award]
    show "\<forall>player. get_player e pid = Some player \<longrightarrow>
            \<not> fst (add_experience amount player w)" by blast
  }
next
  assume "\<forall>pid' amount'. c \<noteq> AwardExperience pid' amount'"
  then show "level_up_firings (snd (step c (e, w))) = level_up_firings w"
    by (rule step_level_ups)
qed

lemma listening_state:
  "map (\<lambda>(k, p). (k, level p, experience p)) (players (fst listening)) = [(''p1'', 1, 0)]"
  "event_listeners (fst listening) =
     [(''level_up'', [7]), (''achievement_earned'', [8]), (''challenge_completed'', [])]"
  "trace (snd listening) = []"
  by (simp_all add: listening_def marathon_def engine_defs)

theorem level_up_fired_only_by_award_experience_witness:
  "(case complete_player_challenge ''p1'' ''marathon'' (fst listening) (snd listening) of
      (ok, e1, w1) \<Rightarrow>
        ok \<and> map (\<lambda>(k, p). (k, level p)) (players e1) = [(''p1'', 2)] \<and>
        level_up_firings w1 = [])
 \<and> (case award_experience ''p1'' 0 (add_achievement_rule always_rule (fst listening))
            (snd listening) of
      (leveled_up, e2, w2) \<Rightarrow>
        \<not> leveled_up \<and>
        map (\<lambda>(k, p). (k, level p, map ach_id (achievements p))) (players e2)
          = [(''p1'', 2, [''first''])] \<and>
        level_up_firings w2 = [])
 \<and> (case award_experience ''p1'' 100 (fst listening) (snd listening) of
      (leveled_up, e3, w3) \<Rightarrow>
        leveled_up \<and> map f_listeners (level_up_firings w3) = [[7]])"
proof -
  obtain ok e1 w1 where c:
    "complete_player_challenge ''p1'' ''marathon'' (fst listening) (snd listening) = (ok, e1, w1)"
    by (metis prod_cases3)
  obtain b2 e2 w2 where a0:
    "award_experience ''p1'' 0 (add_achievement_rule always_rule (fst listening)) (snd listening)
       = (b2, e2, w2)"
    by (metis prod_cases3)
  obtain b3 e3 w3 where a100:
    "award_experience ''p1'' 100 (fst listening) (snd listening) = (b3, e3, w3)"
    by (metis prod_cases3)
  have quiet: "level_up_firings (snd listening) = []"
    by (simp add: level_up_firings_def listening_state)
  have c_eval: "ok" "map (\<lambda>(k, p). (k, level p)) (players e1) = [(''p1'', 2)]"
    using c by (auto simp: listening_def marathon_def engine_defs)
  have a0_eval: "\<not> b2"
    "map (\<lambda>(k, p). (k, level p, map ach_id (achievements p))) (players e2)
          = [(''p1'', 2, [''first''])]"
    using a0
    by (auto simp: listening_def marathon_def always_rule_def badge_def engine_defs check_def
          earn_achievement_def)
  have a100_eval: "b3" "map_of (event_listeners (fst listening)) ''level_up'' = Some [7]"
    using a100 by (auto simp: listening_def marathon_def engine_defs)
  have r1: "level_up_firings w1 = []"
    using level_up_fired_only_by_award_experience
            [where pid = "''p1''" and cid = "''marathon''" and e = "fst listening"
               and w = "snd listening" and ok = ok and ?e1.0 = e1 and ?w1.0 = w1]
          c quiet by simp
  have r2: "level_up_firings w2 = []"
    using level_up_fired_only_by_award_experience
            [where pid = "''p1''" and amount = 0
               and e = "add_achievement_rule always_rule (fst listening)"
               and w = "snd listening" and leveled_up = b2 and ?e5.0 = e2 and ?w5.0 = w2]
          a0 a0_eval(1) quiet by simp
  note award = level_up_fired_only_by_award_experience
            [THEN conjunct2, THEN conjunct2, THEN conjunct2, THEN conjunct2, THEN conjunct1,
             THEN mp, OF a100]
  have r3: "map f_listeners (level_up_firings w3) = [[7]]"
    using award a100_eval quiet by auto
  from c_eval a0_eval a100_eval(1) r1 r2 r3 show ?thesis
    by (simp add: c a0 a100)
qed

section \<open>Each achievement is fired once\<close>

lemma count_list_append: "count_list (xs @ ys) x = count_list xs x + count_list ys x"
  by (induction xs) auto

lemma earned_of_granted:
  assumes "\<forall>f \<in> set ts. f_event f = ''achievement_earned'' \<and> player_id (f_player f) = k"
    and "map f_arg ts = map AchievementArg granted"
  shows "concat (map earned_of ts) = map (\<lambda>a. (k, ach_id a)) granted"
  using assms
proof (induction ts arbitrary: granted)
  case Nil
  then show ?case by simp
next
  case (Cons f ts)
  from Cons.prems(2) obtain a rest where split: "granted = a # rest"
    and arg: "f_arg f = AchievementArg a" and rest: "map f_arg ts = map AchievementArg rest"
    by (cases granted) simp_all
  from Cons.prems(1) have f: "f_event f = ''achievement_earned''" "player_id (f_player f) = k"
    and others: "\<forall>f \<in> set ts. f_event f = ''achievement_earned'' \<and> player_id (f_player f) = k"
    by simp_all
  have "concat (map earned_of ts) = map (\<lambda>a. (k, ach_id a)) rest"
    using others rest by (rule Cons.IH)
  moreover have "earned_of f = [(k, ach_id a)]"
    by (simp add: earned_of_def arg f)
  ultimately show ?case by (simp add: split)
qed

lemma check_loop_earned:
  assumes "check_loop e rules acc p w = (new, p', w')"
    and "map_of (event_listeners e) ''achievement_earned'' \<noteq> None"
  shows "\<exists>granted. new = acc @ granted \<and>
           achievements p' = achievements p @ granted \<and>
           distinct (map ach_id granted) \<and>
           set (map ach_id granted) \<inter> set (map ach_id (achievements p)) = {} \<and>
           earned_firings w' = earned_firings w @ map (\<lambda>a. (player_id p, ach_id a)) granted \<and>
           player_id p' = player_id p"
proof -
  from assms(2) obtain ls where ls: "map_of (event_listeners e) ''achievement_earned'' = Some ls"
    by blast
  from check_loop_grants [OF assms(1)] obtain granted ts where g0:
    "new = acc @ granted \<and>
           achievements p' = achievements p @ granted \<and>
           subseq granted (map achievement rules) \<and>
           distinct (map ach_id granted) \<and>
           set (map ach_id granted) \<inter> set (map ach_id (achievements p)) = {} \<and>
           trace w' = trace w @ ts \<and>
           (\<forall>f \<in> set ts. f_event f = ''achievement_earned'' \<and>
                          player_id (f_player f) = player_id p \<and>
                          (\<exists>a. f_arg f = AchievementArg a \<and>
                               ach_id a \<in> set (map ach_id (achievements (f_player f))))) \<and>
           (case map_of (event_listeners e) ''achievement_earned'' of
              None \<Rightarrow> ts = []
            | Some ls \<Rightarrow> map f_arg ts = map AchievementArg granted \<and>
                         (\<forall>f \<in> set ts. f_listeners f = ls)) \<and>
           player_id p' = player_id p \<and> challenges p' = challenges p \<and>
           heap w' = heap w \<and> next_ref w' = next_ref w"
    by (elim exE)
  then have g: "new = acc @ granted" "achievements p' = achievements p @ granted"
    "distinct (map ach_id granted)"
    "set (map ach_id granted) \<inter> set (map ach_id (achievements p)) = {}"
    "trace w' = trace w @ ts"
    "\<forall>f \<in> set ts. f_event f = ''achievement_earned'' \<and> player_id (f_player f) = player_id p"
    "player_id p' = player_id p"
    by simp_all
  from g0 ls have g7: "map f_arg ts = map AchievementArg granted" by simp
  have "earned_firings w' = earned_firings w @ map (\<lambda>a. (player_id p, ach_id a)) granted"
    using earned_of_granted [OF g(6) g7] g(5) by (simp add: earned_firings_def)
  with g show ?thesis by blast
qed

lemma count_list_keyed:
  "count_list (map (\<lambda>a. (k, f a)) xs) (k', y) = (if k' = k then count_list (map f xs) y else 0)"
  by (induction xs) auto

lemma get_player_put:
  "get_player (put_player pid p e) pid' = (if pid' = pid then Some p else get_player e pid')"
  by (simp add: get_player_def put_player_def update_conv')

lemma put_player_listeners: "event_listeners (put_player pid p e) = event_listeners e"
  by (simp add: put_player_def)

text \<open>
  Storing a player back after it was granted some achievements, each fired once, keeps
  the invariant.
\<close>

lemma earned_once_store:
  assumes inv: "earned_once_inv (e, w)"
    and player: "get_player e pid = Some p0"
    and app: "achievements p2 = achievements p0 @ granted"
    and fresh: "distinct (map ach_id granted)"
      "set (map ach_id granted) \<inter> set (map ach_id (achievements p0)) = {}"
    and fired: "earned_firings w2 = earned_firings w @ map (\<lambda>a. (pid, ach_id a)) granted"
    and same: "player_id p2 = player_id p0"
  shows "earned_once_inv (put_player pid p2 e, w2)"
proof -
  from inv have key: "map_of (event_listeners e) ''achievement_earned'' \<noteq> None"
    unfolding earned_once_inv_def prod.case by (elim conjE)
  from inv have "\<forall>k p. get_player e k = Some p \<longrightarrow>
                 player_id p = k \<and> distinct (map ach_id (achievements p))"
    unfolding earned_once_inv_def prod.case by (elim conjE)
  then have ids: "\<And>k p. get_player e k = Some p \<Longrightarrow>
                 player_id p = k \<and> distinct (map ach_id (achievements p))"
    by blast
  from inv have "\<forall>k aid. count_list (earned_firings w) (k, aid) =
           (case get_player e k of
              None \<Rightarrow> 0
            | Some p \<Rightarrow> count_list (map ach_id (achievements p)) aid)"
    unfolding earned_once_inv_def prod.case by (elim conjE)
  then have counts: "\<And>k aid. count_list (earned_firings w) (k, aid) =
           (case get_player e k of
              None \<Rightarrow> 0
            | Some p \<Rightarrow> count_list (map ach_id (achievements p)) aid)"
    by blast
  have pid: "player_id p0 = pid" "distinct (map ach_id (achievements p0))"
    using ids [OF player] by simp_all
  have d: "distinct (map ach_id (achievements p2))"
    using app fresh pid(2) by auto
  have new_ids: "map ach_id (achievements p2) = map ach_id (achievements p0) @ map ach_id granted"
    using app by simp
  have c: "count_list (earned_firings w2) (k, aid) =
           (case get_player (put_player pid p2 e) k of
              None \<Rightarrow> 0
            | Some p \<Rightarrow> count_list (map ach_id (achievements p)) aid)" for k aid
  proof (cases "k = pid")
    case True
    have "count_list (earned_firings w2) (pid, aid) =
            count_list (map ach_id (achievements p0)) aid + count_list (map ach_id granted) aid"
      using counts [of pid aid] player
      by (simp add: fired count_list_append count_list_keyed)
    then show ?thesis
      by (simp add: True get_player_put new_ids count_list_append)
  next
    case False
    have "count_list (earned_firings w2) (k, aid) = count_list (earned_firings w) (k, aid)"
      using False by (simp add: fired count_list_append count_list_keyed)
    then show ?thesis
      using counts [of k aid] False by (simp add: get_player_put)
  qed
  have i: "player_id p = k \<and> distinct (map ach_id (achievements p))"
    if "get_player (put_player pid p2 e) k = Some p" for k p
  proof (cases "k = pid")
    case True
    with that have "p = p2" by (simp add: get_player_put)
    with d same pid(1) True show ?thesis by simp
  next
    case False
    with that have "get_player e k = Some p" by (simp add: get_player_put)
    then show ?thesis by (rule ids)
  qed
  have l: "map_of (event_listeners (put_player pid p2 e)) ''achievement_earned'' \<noteq> None"
    using key by (simp add: put_player_listeners)
  show ?thesis
    unfolding earned_once_inv_def prod.case
    using l i c by blast
qed

lemma earned_once_pass:
  assumes inv: "earned_once_inv (e, w)"
    and player: "get_player e pid = Some p0"
    and same: "achievements p1 = achievements p0" "player_id p1 = player_id p0"
      "earned_firings w1 = earned_firings w"
    and pass: "check_achievements e p1 w1 = (new, p2, w2)"
  shows "earned_once_inv (put_player pid p2 e, w2)"
proof -
  from inv have key: "map_of (event_listeners e) ''achievement_earned'' \<noteq> None"
    unfolding earned_once_inv_def prod.case by (elim conjE)
  from inv have "\<forall>k p. get_player e k = Some p \<longrightarrow>
                 player_id p = k \<and> distinct (map ach_id (achievements p))"
    unfolding earned_once_inv_def prod.case by (elim conjE)
  with player have pid: "player_id p0 = pid" by blast
  from check_loop_earned [OF pass [unfolded check_achievements_def] key]
  obtain granted where g: "achievements p2 = achievements p1 @ granted"
    "distinct (map ach_id granted)"
    "set (map ach_id granted) \<inter> set (map ach_id (achievements p1)) = {}"
    "earned_firings w2 = earned_firings w1 @ map (\<lambda>a. (player_id p1, ach_id a)) granted"
    "player_id p2 = player_id p1"
    by blast
  show ?thesis
  proof (rule earned_once_store [OF inv player])
    show "achievements p2 = achievements p0 @ granted" using g(1) same(1) by simp
    show "distinct (map ach_id granted)" by (rule g(2))
    show "set (map ach_id granted) \<inter> set (map ach_id (achievements p0)) = {}"
      using g(3) same(1) by simp
    show "earned_firings w2 = earned_firings w @ map (\<lambda>a. (pid, ach_id a)) granted"
      using g(4) same(2,3) pid by simp
    show "player_id p2 = player_id p0" using g(5) same(2) by simp
  qed
qed

lemma earned_once_same:
  assumes inv: "earned_once_inv (e, w)"
    and player: "get_player e pid = Some p0"
    and same: "achievements p1 = achievements p0" "player_id p1 = player_id p0"
      "earned_firings w1 = earned_firings w"
  shows "earned_once_inv (put_player pid p1 e, w1)"
  by (rule earned_once_store [OF inv player, where granted = "[]"]) (simp_all add: same)

lemma earned_once_world:
  assumes "earned_once_inv (e, w)" and "trace w' = trace w"
  shows "earned_once_inv (e, w')"
  using assms by (simp add: earned_once_inv_def earned_firings_def)

lemma trigger_event_earned:
  "event \<noteq> ''achievement_earned'' \<Longrightarrow>
     earned_firings (trigger_event e event p arg w) = earned_firings w"
  by (cases "map_of (event_listeners e) event")
     (simp_all add: earned_firings_def trigger_event_trace earned_of_def)

lemma earned_once_init: "earned_once_inv (GameEngine_init, init_world clk)"
  by (simp add: earned_once_inv_def GameEngine_init_def init_world_def get_player_def
        earned_firings_def)

lemma earned_once_step:
  assumes inv: "earned_once_inv (e, w)"
  shows "earned_once_inv (step c (e, w))"
proof (cases c)
  case (RegisterPlayer pid uname)
  show ?thesis
  proof (cases "map_of (players e) pid")
    case (Some p)
    with RegisterPlayer inv show ?thesis by (simp add: register_player_def)
  next
    case None
    let ?fresh = "fst (Player_init pid uname w)"
    let ?w' = "snd (Player_init pid uname w)"
    have st: "step c (e, w) = (put_player pid ?fresh e, ?w')"
      using RegisterPlayer None by (simp add: register_player_def split: prod.splits)
    have fr: "player_id ?fresh = pid" "achievements ?fresh = []" "trace ?w' = trace w"
      by (simp_all add: Player_init_def now_def)
    from inv have key: "map_of (event_listeners e) ''achievement_earned'' \<noteq> None"
      unfolding earned_once_inv_def prod.case by (elim conjE)
    from inv have ids: "\<forall>k p. get_player e k = Some p \<longrightarrow>
                 player_id p = k \<and> distinct (map ach_id (achievements p))"
      unfolding earned_once_inv_def prod.case by (elim conjE)
    from inv have counts: "\<forall>k aid. count_list (earned_firings w) (k, aid) =
           (case get_player e k of
              None \<Rightarrow> 0
            | Some p \<Rightarrow> count_list (map ach_id (achievements p)) aid)"
      unfolding earned_once_inv_def prod.case by (elim conjE)
    have ef: "earned_firings ?w' = earned_firings w"
      using fr(3) by (simp add: earned_firings_def)
    have none: "get_player e pid = None" using None by (simp add: get_player_def)
    have i: "\<forall>k p. get_player (put_player pid ?fresh e) k = Some p \<longrightarrow>
                 player_id p = k \<and> distinct (map ach_id (achievements p))"
      using ids fr by (auto simp: get_player_put)
    have c: "\<forall>k aid. count_list (earned_firings ?w') (k, aid) =
           (case get_player (put_player pid ?fresh e) k of
              None \<Rightarrow> 0
            | Some p \<Rightarrow> count_list (map ach_id (achievements p)) aid)"
    proof (intro allI)
      fix k aid
      show "count_list (earned_firings ?w') (k, aid) =
           (case get_player (put_player pid ?fresh e) k of
              None \<Rightarrow> 0
            | Some p \<Rightarrow> count_list (map ach_id (achievements p)) aid)"
        using counts [rule_format, of k aid] none
        by (cases "k = pid") (simp_all add: ef get_player_put fr)
    qed
    show ?thesis
      unfolding st earned_once_inv_def prod.case
      using key i c by (simp add: put_player_listeners)
  qed
next
  case (AddAchievementRule rule)
  with inv show ?thesis
    by (simp add: earned_once_inv_def add_achievement_rule_def get_player_def)
next
  case (NewChallenge ch)
  with inv show ?thesis
    by (simp add: earned_once_inv_def new_challenge_def earned_firings_def)
next
  case (AddChallenge r)
  with inv show ?thesis
    by (simp add: earned_once_inv_def add_challenge_def get_player_def)
next
  case (AssignChallenge pid cid)
  show ?thesis
  proof (cases "get_player e pid")
    case None
    with AssignChallenge inv show ?thesis by (simp add: assign_challenge_def)
  next
    case (Some player)
    show ?thesis
    proof (cases "map_of (challenge_catalog e) cid")
      case None
      with AssignChallenge Some inv show ?thesis by (simp add: assign_challenge_def)
    next
      case (Some r)
      have "earned_once_inv (put_player pid (start_challenge r player w) e, w)"
        by (rule earned_once_same [OF inv \<open>get_player e pid = Some player\<close>])
           (simp_all add: start_challenge_def)
      with AssignChallenge Some \<open>get_player e pid = Some player\<close> show ?thesis
        by (simp add: assign_challenge_def)
    qed
  qed
next
  case (CompletePlayerChallenge pid cid)
  show ?thesis
  proof (cases "get_player e pid")
    case None
    with CompletePlayerChallenge inv show ?thesis by (simp add: complete_player_challenge_def)
  next
    case (Some player)
    obtain success p1 w1 where cc: "complete_challenge cid player w = (success, p1, w1)"
      by (metis prod_cases3)
    note fr = complete_challenge_frame [OF cc]
    have ef: "earned_firings w1 = earned_firings w" using fr(1) by (simp add: earned_firings_def)
    show ?thesis
    proof (cases success)
      case False
      have "earned_once_inv (put_player pid p1 e, w1)"
        by (rule earned_once_same [OF inv Some]) (simp_all add: fr ef)
      with CompletePlayerChallenge Some cc False show ?thesis
        by (simp add: complete_player_challenge_def)
    next
      case True
      let ?w2 = "trigger_event e ''challenge_completed'' p1 (ChallengeIdArg cid) w1"
      obtain new p2 w2 where ca: "check_achievements e p1 ?w2 = (new, p2, w2)"
        by (metis prod_cases3)
      have "earned_once_inv (put_player pid p2 e, w2)"
        by (rule earned_once_pass [OF inv Some _ _ _ ca])
           (simp_all add: fr ef trigger_event_earned)
      with CompletePlayerChallenge Some cc True ca show ?thesis
        by (simp add: complete_player_challenge_def)
    qed
  qed
next
  case (AwardExperience pid amount)
  show ?thesis
  proof (cases "get_player e pid")
    case None
    with AwardExperience inv show ?thesis by (simp add: award_experience_def)
  next
    case (Some player)
    obtain b p1 w1 where ae: "add_experience amount player w = (b, p1, w1)"
      by (metis prod_cases3)
    note fr = add_experience_frame [OF ae]
    let ?w2 = "if b then trigger_event e ''level_up'' p1 NoArg w1 else w1"
    obtain new p2 w2 where ca: "check_achievements e p1 ?w2 = (new, p2, w2)"
      by (metis prod_cases3)
    have ef: "earned_firings ?w2 = earned_firings w"
      using fr by (simp add: trigger_event_earned) (simp add: earned_firings_def)
    have "earned_once_inv (put_player pid p2 e, w2)"
      by (rule earned_once_pass [OF inv Some _ _ ef ca]) (simp_all add: fr)
    with AwardExperience Some ae ca show ?thesis
      by (simp add: award_experience_def)
  qed
next
  case (On event listener)
  with inv show ?thesis
    by (auto simp: earned_once_inv_def on_def get_player_def update_conv'
          split: option.splits)
qed

lemma earned_once_run: "earned_once_inv s \<Longrightarrow> earned_once_inv (run cs s)"
proof (induction cs arbitrary: s)
  case Nil
  then show ?case by simp
next
  case (Cons c cs)
  obtain e w where s: "s = (e, w)" by (cases s)
  with Cons.prems have "earned_once_inv (step c s)" by (simp add: earned_once_step)
  then show ?case by (simp add: Cons.IH)
qed

lemma earned_exactly_once:
  assumes "run cs (GameEngine_init, init_world clk) = (e, w)"
  shows "count_list (earned_firings w) (pid, aid) =
           (if \<exists>p. get_player e pid = Some p \<and> aid \<in> set (map ach_id (achievements p))
            then 1 else 0)"
proof -
  have inv: "earned_once_inv (e, w)"
    using earned_once_run [OF earned_once_init, of cs clk] assms by simp
  from inv have ids: "\<forall>k p. get_player e k = Some p \<longrightarrow>
                 player_id p = k \<and> distinct (map ach_id (achievements p))"
    unfolding earned_once_inv_def prod.case by (elim conjE)
  from inv have counts: "\<forall>k aid. count_list (earned_firings w) (k, aid) =
           (case get_player e k of
              None \<Rightarrow> 0
            | Some p \<Rightarrow> count_list (map ach_id (achievements p)) aid)"
    unfolding earned_once_inv_def prod.case by (elim conjE)
  show ?thesis
  proof (cases "get_player e pid")
    case None
    with counts [rule_format, of pid aid] show ?thesis by simp
  next
    case (Some p)
    with ids have "distinct (map ach_id (achievements p))" by blast
    then have "count_list (map ach_id (achievements p)) aid =
                 (if aid \<in> set (map ach_id (achievements p)) then 1 else 0)"
      by (rule count_list_distinct)
    with counts [rule_format, of pid aid] Some show ?thesis by simp
  qed
qed

lemma check_loop_step:
  "check_loop e (rule # rules) acc p w =
     (if ach_id (achievement rule) \<in> set (map ach_id (achievements p))
      then check_loop e rules acc p w
      else if \<not> check rule p w
      then check_loop e rules acc p w
      else check_loop e rules (acc @ [achievement rule])
             (fst (earn_achievement (achievement rule) p w))
             (trigger_event e ''achievement_earned''
                (fst (earn_achievement (achievement rule) p w))
                (AchievementArg (achievement rule))
                (snd (earn_achievement (achievement rule) p w))))"
  by (simp add: list_ex_ach_id split: prod.splits)

lemma check_achievements_result:
  assumes "check_achievements e p w = (new, p', w')"
  shows "achievements p' = achievements p @ new \<and>
         subseq new (map achievement (achievement_rules e)) \<and>
         distinct (map ach_id new) \<and>
         set (map ach_id new) \<inter> set (map ach_id (achievements p)) = {} \<and>
         (\<forall>ls. map_of (event_listeners e) ''achievement_earned'' = Some ls \<longrightarrow>
            (\<exists>ts. trace w' = trace w @ ts \<and>
                  map f_arg ts = map AchievementArg new \<and>
                  (\<forall>f \<in> set ts. f_event f = ''achievement_earned'' \<and>
                                 player_id (f_player f) = player_id p \<and>
                                 f_listeners f = ls)))"
proof -
  from check_loop_grants [OF assms [unfolded check_achievements_def]]
  obtain granted ts where g0:
    "[] @ granted = new"
    "achievements p' = achievements p @ granted"
    "subseq granted (map achievement (achievement_rules e))"
    "distinct (map ach_id granted)"
    "set (map ach_id granted) \<inter> set (map ach_id (achievements p)) = {}"
    "trace w' = trace w @ ts"
    "\<forall>f \<in> set ts. f_event f = ''achievement_earned'' \<and> player_id (f_player f) = player_id p"
    "case map_of (event_listeners e) ''achievement_earned'' of
              None \<Rightarrow> ts = []
            | Some ls \<Rightarrow> map f_arg ts = map AchievementArg granted \<and>
                         (\<forall>f \<in> set ts. f_listeners f = ls)"
    by (elim exE conjE) (rule that, simp_all)
  have new: "granted = new" using g0(1) by simp
  have "\<exists>ts. trace w' = trace w @ ts \<and>
                  map f_arg ts = map AchievementArg new \<and>
                  (\<forall>f \<in> set ts. f_event f = ''achievement_earned'' \<and>
                                 player_id (f_player f) = player_id p \<and>
                                 f_listeners f = ls)"
    if "map_of (event_listeners e) ''achievement_earned'' = Some ls" for ls
  proof (intro exI conjI)
    show "trace w' = trace w @ ts" by (rule g0(6))
    show "map f_arg ts = map AchievementArg new" using g0(8) that new by simp
    show "\<forall>f \<in> set ts. f_event f = ''achievement_earned'' \<and>
                                 player_id (f_player f) = player_id p \<and>
                                 f_listeners f = ls"
      using g0(7,8) that by simp
  qed
  with g0(2-5) new show ?thesis by blast
qed

lemma two_rules_pass:
  "fst (check_achievements two_rules (fst (Player_init ''p1'' ''alice'' (init_world int)))
          (snd (Player_init ''p1'' ''alice'' (init_world int))))
     = [badge, achievement starter_rule]"
  by (simp add: two_rules_def always_rule_def starter_rule_def badge_def veteran_def engine_defs
        check_def earn_achievement_def)

lemma climbing_example:
  "earned_firings (snd (run climbing (GameEngine_init, init_world int))) = []"
  "map (\<lambda>(k, p). (k, level p)) (players (fst (run climbing (GameEngine_init, init_world int))))
     = [(''p1'', 4)]"
  "earned_firings (snd (run (climbing @ [AwardExperience ''p1'' 400])
                          (GameEngine_init, init_world int))) = [(''p1'', ''veteran'')]"
  "map (\<lambda>(k, p). (k, level p))
     (players (fst (run (climbing @ [AwardExperience ''p1'' 400])
                      (GameEngine_init, init_world int))))
     = [(''p1'', 5)]"
  "earned_firings (snd (run (climbing @ [AwardExperience ''p1'' 400, AwardExperience ''p1'' 500])
                          (GameEngine_init, init_world int))) = [(''p1'', ''veteran'')]"
  by (simp_all add: climbing_def level5_rule_def veteran_def engine_defs check_def
        earn_achievement_def earned_firings_def earned_of_def)

lemma count_list_replicate: "count_list (replicate n x) y = (if x = y then n else 0)"
  by (induction n) auto

lemma calls_of_other: "f_event f \<noteq> ''achievement_earned'' \<Longrightarrow> calls_of l f = []"
  by (simp add: calls_of_def)

lemma calls_of_count:
  assumes "f_event f = ''achievement_earned''"
  shows "count_list (calls_of l f) x = count_list (f_listeners f) l * count_list (earned_of f) x"
proof (cases "f_arg f")
  case (AchievementArg a)
  show ?thesis
  proof (cases "(player_id (f_player f), ach_id a) = x")
    case True
    with assms AchievementArg show ?thesis
      by (simp add: calls_of_def earned_of_def count_list_replicate)
  next
    case False
    with assms AchievementArg show ?thesis
      by (simp add: calls_of_def earned_of_def count_list_replicate)
  qed
next
  case NoArg
  with assms show ?thesis by (simp add: calls_of_def earned_of_def)
next
  case (ChallengeIdArg cid)
  with assms show ?thesis by (simp add: calls_of_def earned_of_def)
qed

lemma count_list_concat_Cons:
  "count_list (concat (map g (f # ts))) x = count_list (g f) x + count_list (concat (map g ts)) x"
  by (simp add: count_list_append)

lemma earned_of_other: "f_event f \<noteq> ''achievement_earned'' \<Longrightarrow> earned_of f = []"
  by (simp add: earned_of_def)

lemma calls_vs_earned:
  assumes "\<forall>f \<in> set ts. f_event f = ''achievement_earned'' \<longrightarrow> count_list (f_listeners f) l = n"
  shows "count_list (concat (map (calls_of l) ts)) x
           = n * count_list (concat (map earned_of ts)) x"
  using assms
proof (induction ts)
  case Nil
  then show ?case by simp
next
  case (Cons f ts)
  have rest: "count_list (concat (map (calls_of l) ts)) x
           = n * count_list (concat (map earned_of ts)) x"
    using Cons by simp
  have this_one: "count_list (calls_of l f) x = n * count_list (earned_of f) x"
  proof (cases "f_event f = ''achievement_earned''")
    case True
    with Cons.prems have "count_list (f_listeners f) l = n" by simp
    with calls_of_count [OF True, of l x] show ?thesis by simp
  next
    case False
    then show ?thesis by (simp add: calls_of_other earned_of_other)
  qed
  show ?case
    unfolding count_list_concat_Cons rest this_one by (simp add: distrib_left)
qed

text \<open>Every firing carries the listeners registered for its event when it was fired.\<close>

lemma trigger_event_listeners:
  "\<exists>ts. trace (trigger_event e event p arg w) = trace w @ ts \<and>
        (\<forall>f \<in> set ts. map_of (event_listeners e) (f_event f) = Some (f_listeners f))"
  by (cases "map_of (event_listeners e) event") (simp_all add: trigger_event_trace)

lemma check_achievements_listeners:
  assumes "check_achievements e p w = (new, p', w')"
  shows "\<exists>ts. trace w' = trace w @ ts \<and>
          (\<forall>f \<in> set ts. map_of (event_listeners e) (f_event f) = Some (f_listeners f))"
proof -
  from check_loop_grants [OF assms [unfolded check_achievements_def]]
  obtain ts where ts: "trace w' = trace w @ ts"
    "\<forall>f \<in> set ts. f_event f = ''achievement_earned''"
    "case map_of (event_listeners e) ''achievement_earned'' of
              None \<Rightarrow> ts = []
            | Some ls \<Rightarrow> (\<forall>f \<in> set ts. f_listeners f = ls)"
    by (elim exE conjE) (rule that, auto split: option.splits)
  have "\<forall>f \<in> set ts. map_of (event_listeners e) (f_event f) = Some (f_listeners f)"
    using ts(2,3) by (cases "map_of (event_listeners e) ''achievement_earned''") auto
  with ts(1) show ?thesis by blast
qed

lemma step_trace:
  assumes "step c (e, w) = (e', w')"
  shows "\<exists>ts. trace w' = trace w @ ts \<and>
          (\<forall>f \<in> set ts. map_of (event_listeners e) (f_event f) = Some (f_listeners f))"
proof (cases c)
  case (RegisterPlayer pid uname)
  with assms have "trace w' = trace w"
    by (auto simp: register_player_def Player_init_def now_def split: if_splits)
  then show ?thesis by simp
next
  case (AddAchievementRule rule)
  with assms show ?thesis by auto
next
  case (NewChallenge ch)
  with assms have "trace w' = trace w" by (auto simp: new_challenge_def)
  then show ?thesis by simp
next
  case (AddChallenge r)
  with assms have "trace w' = trace w" by (auto split: if_splits)
  then show ?thesis by simp
next
  case (AssignChallenge pid cid)
  with assms show ?thesis by auto
next
  case (On event listener)
  with assms show ?thesis by auto
next
  case (CompletePlayerChallenge pid cid)
  show ?thesis
  proof (cases "get_player e pid")
    case None
    with CompletePlayerChallenge assms show ?thesis
      by (auto simp: complete_player_challenge_def)
  next
    case (Some player)
    obtain success p1 w1 where cc: "complete_challenge cid player w = (success, p1, w1)"
      by (metis prod_cases3)
    have tr: "trace w1 = trace w" by (rule complete_challenge_frame(1) [OF cc])
    show ?thesis
    proof (cases success)
      case False
      with CompletePlayerChallenge assms Some cc have "w' = w1"
        by (simp add: complete_player_challenge_def)
      with tr show ?thesis by simp
    next
      case True
      let ?w2 = "trigger_event e ''challenge_completed'' p1 (ChallengeIdArg cid) w1"
      obtain new p2 w2 where ca: "check_achievements e p1 ?w2 = (new, p2, w2)"
        by (metis prod_cases3)
      have w': "w' = w2"
        using CompletePlayerChallenge assms Some cc True ca
        by (simp add: complete_player_challenge_def)
      from trigger_event_listeners [of e "''challenge_completed''" p1 "ChallengeIdArg cid" w1]
      obtain ts1 where ts1: "trace ?w2 = trace w1 @ ts1"
        "\<forall>f \<in> set ts1. map_of (event_listeners e) (f_event f) = Some (f_listeners f)"
        by blast
      from check_achievements_listeners [OF ca]
      obtain ts2 where ts2: "trace w2 = trace ?w2 @ ts2"
        "\<forall>f \<in> set ts2. map_of (event_listeners e) (f_event f) = Some (f_listeners f)"
        by blast
      have "trace w' = trace w @ (ts1 @ ts2)" using ts1(1) ts2(1) tr w' by simp
      moreover have "\<forall>f \<in> set (ts1 @ ts2).
                       map_of (event_listeners e) (f_event f) = Some (f_listeners f)"
        using ts1(2) ts2(2) by auto
      ultimately show ?thesis by blast
    qed
  qed
next
  case (AwardExperience pid amount)
  show ?thesis
  proof (cases "get_player e pid")
    case None
    with AwardExperience assms show ?thesis by (auto simp: award_experience_def)
  next
    case (Some player)
    obtain b p1 w1 where ae: "add_experience amount player w = (b, p1, w1)"
      by (metis prod_cases3)
    have tr: "trace w1 = trace w" using add_experience_frame [OF ae] by simp
    let ?w2 = "if b then trigger_event e ''level_up'' p1 NoArg w1 else w1"
    obtain new p2 w2 where ca: "check_achievements e p1 ?w2 = (new, p2, w2)"
      by (metis prod_cases3)
    have w': "w' = w2"
      using AwardExperience assms Some ae ca by (simp add: award_experience_def)
    have "\<exists>ts. trace ?w2 = trace w1 @ ts \<and>
            (\<forall>f \<in> set ts. map_of (event_listeners e) (f_event f) = Some (f_listeners f))"
      using trigger_event_listeners [of e "''level_up''" p1 NoArg w1] by (cases b) simp_all
    then obtain ts1 where ts1: "trace ?w2 = trace w1 @ ts1"
      "\<forall>f \<in> set ts1. map_of (event_listeners e) (f_event f) = Some (f_listeners f)"
      by blast
    from check_achievements_listeners [OF ca]
    obtain ts2 where ts2: "trace w2 = trace ?w2 @ ts2"
      "\<forall>f \<in> set ts2. map_of (event_listeners e) (f_event f) = Some (f_listeners f)"
      by blast
    have "trace w' = trace w @ (ts1 @ ts2)" using ts1(1) ts2(1) tr w' by simp
    moreover have "\<forall>f \<in> set (ts1 @ ts2).
                     map_of (event_listeners e) (f_event f) = Some (f_listeners f)"
      using ts1(2) ts2(2) by auto
    ultimately show ?thesis by blast
  qed
qed

lemma step_registered:
  assumes "c \<noteq> On ''achievement_earned'' l"
  shows "registered (fst (step c (e, w))) l = registered e l"
proof (cases c)
  case (On event listener)
  show ?thesis
  proof (cases "map_of (event_listeners e) event")
    case None
    with On show ?thesis by (simp add: on_def)
  next
    case (Some ls)
    show ?thesis
    proof (cases "event = ''achievement_earned''")
      case True
      with On assms have "listener \<noteq> l" by simp
      with On Some True show ?thesis
        by (simp add: on_def registered_def update_conv' count_list_append)
    next
      case False
      with On Some show ?thesis
        by (simp add: on_def registered_def update_conv')
    qed
  qed
qed (auto simp: registered_def register_player_def put_player_def add_achievement_rule_def
       add_challenge_def assign_challenge_def complete_player_challenge_def award_experience_def
       split: option.splits prod.splits if_splits)

lemma run_trace:
  assumes "\<forall>c \<in> set cs. c \<noteq> On ''achievement_earned'' l"
    and "run cs (e, w) = (e', w')"
  shows "registered e' l = registered e l \<and>
         (\<exists>ts. trace w' = trace w @ ts \<and>
            (\<forall>f \<in> set ts. f_event f = ''achievement_earned'' \<longrightarrow>
               count_list (f_listeners f) l = registered e l))"
  using assms
proof (induction cs arbitrary: e w)
  case Nil
  then show ?case by simp
next
  case (Cons c cs)
  obtain e1 w1 where st: "step c (e, w) = (e1, w1)" by (cases "step c (e, w)")
  have c: "c \<noteq> On ''achievement_earned'' l"
    and cs: "\<forall>c \<in> set cs. c \<noteq> On ''achievement_earned'' l"
    using Cons.prems(1) by simp_all
  have reg: "registered e1 l = registered e l"
    using step_registered [OF c, of e w] st by simp
  from step_trace [OF st] obtain ts1 where ts1: "trace w1 = trace w @ ts1"
    "\<forall>f \<in> set ts1. map_of (event_listeners e) (f_event f) = Some (f_listeners f)"
    by blast
  have first: "\<forall>f \<in> set ts1. f_event f = ''achievement_earned'' \<longrightarrow>
               count_list (f_listeners f) l = registered e l"
    using ts1(2) by (auto simp: registered_def)
  have "run cs (e1, w1) = (e', w')" using Cons.prems(2) st by simp
  from Cons.IH [OF cs this] obtain ts2 where ts2: "registered e' l = registered e1 l"
    "trace w' = trace w1 @ ts2"
    "\<forall>f \<in> set ts2. f_event f = ''achievement_earned'' \<longrightarrow>
               count_list (f_listeners f) l = registered e1 l"
    by blast
  have tr: "trace w' = trace w @ (ts1 @ ts2)" using ts1(1) ts2(2) by simp
  have all: "\<forall>f \<in> set (ts1 @ ts2). f_event f = ''achievement_earned'' \<longrightarrow>
               count_list (f_listeners f) l = registered e l"
    using first ts2(3) reg by auto
  have "registered e' l = registered e l" using ts2(1) reg by simp
  moreover have "\<exists>ts. trace w' = trace w @ ts \<and>
            (\<forall>f \<in> set ts. f_event f = ''achievement_earned'' \<longrightarrow>
               count_list (f_listeners f) l = registered e l)"
    using tr all by (intro exI [of _ "ts1 @ ts2"] conjI)
  ultimately show ?case by (rule conjI)
qed

lemma run_calls:
  assumes "\<forall>c \<in> set cs. c \<noteq> On ''achievement_earned'' l"
    and "run cs (e, w) = (e', w')"
  shows "count_list (listener_calls l w') x + registered e l * count_list (earned_firings w) x
           = count_list (listener_calls l w) x + registered e l * count_list (earned_firings w') x"
proof -
  from run_trace [OF assms] obtain ts where ts: "trace w' = trace w @ ts"
    "\<forall>f \<in> set ts. f_event f = ''achievement_earned'' \<longrightarrow>
               count_list (f_listeners f) l = registered e l"
    by blast
  have calls: "count_list (listener_calls l w') x =
                 count_list (listener_calls l w) x
                   + registered e l * count_list (concat (map earned_of ts)) x"
    using calls_vs_earned [OF ts(2), of x]
    by (simp add: listener_calls_def ts(1) count_list_append)
  have earned: "count_list (earned_firings w') x =
                  count_list (earned_firings w) x + count_list (concat (map earned_of ts)) x"
    by (simp add: earned_firings_def ts(1) count_list_append)
  show ?thesis
    unfolding calls earned by (simp add: distrib_left)
qed

lemma listener_called_once:
  assumes "run (On ''achievement_earned'' l # cs) (GameEngine_init, init_world clk) = (e, w)"
    and "\<forall>c \<in> set cs. c \<noteq> On ''achievement_earned'' l"
  shows "count_list (listener_calls l w) (pid, aid) =
           (if \<exists>q. get_player e pid = Some q \<and> aid \<in> set (map ach_id (achievements q))
            then 1 else 0)"
proof -
  let ?e1 = "on ''achievement_earned'' l GameEngine_init"
  have run: "run cs (?e1, init_world clk) = (e, w)" using assms(1) by simp
  have reg: "registered ?e1 l = 1"
    by (simp add: registered_def on_def GameEngine_init_def)
  have start: "listener_calls l (init_world clk) = []" "earned_firings (init_world clk) = []"
    by (simp_all add: listener_calls_def earned_firings_def init_world_def)
  from run_calls [OF assms(2) run, of "(pid, aid)"]
  have "count_list (listener_calls l w) (pid, aid) = count_list (earned_firings w) (pid, aid)"
    by (simp add: reg start)
  with earned_exactly_once [OF assms(1)] show ?thesis by simp
qed

lemma run_append: "run (xs @ ys) s = run ys (run xs s)"
  by (induction xs arbitrary: s) simp_all

lemma listener_calls_law:
  assumes "run cs1 (GameEngine_init, init_world clk) = (e3, w3)"
    and "run cs2 (e3, w3) = (e4, w4)"
    and "\<forall>c \<in> set cs2. c \<noteq> On ''achievement_earned'' l"
  shows "count_list (listener_calls l w4) (pid, aid)
           + registered e3 l *
               (if \<exists>q. get_player e3 pid = Some q \<and> aid \<in> set (map ach_id (achievements q))
                then 1 else 0)
         = count_list (listener_calls l w3) (pid, aid)
           + registered e3 l *
               (if \<exists>q. get_player e4 pid = Some q \<and> aid \<in> set (map ach_id (achievements q))
                then 1 else 0)"
proof -
  have "run (cs1 @ cs2) (GameEngine_init, init_world clk) = (e4, w4)"
    using assms(1,2) by (simp add: run_append)
  from earned_exactly_once [OF this, of pid aid] earned_exactly_once [OF assms(1), of pid aid]
    run_calls [OF assms(3,2), of "(pid, aid)"]
  show ?thesis by (simp only:)
qed

lemma climbing_calls:
  "listener_calls 8 (snd (run climbing (GameEngine_init, init_world int))) = []"
  "listener_calls 8 (snd (run (climbing @ [AwardExperience ''p1'' 400])
                            (GameEngine_init, init_world int))) = [(''p1'', ''veteran'')]"
  "listener_calls 8 (snd (run (climbing @ [AwardExperience ''p1'' 400, AwardExperience ''p1'' 500])
                            (GameEngine_init, init_world int))) = [(''p1'', ''veteran'')]"
  by (simp_all add: climbing_def level5_rule_def veteran_def engine_defs check_def
        earn_achievement_def listener_calls_def calls_of_def)

text \<open>
  Claim C4. A pass of \<open>_check_achievements\<close> goes through the rules in the order of
  registration (\<open>add_achievement_rule\<close> appends). A rule whose achievement id the
  player holds is skipped; for any other rule the predicate is evaluated on the player as
  it is at that point of the pass, and when it holds the achievement is granted through
  \<open>earn_achievement\<close> and \<open>achievement_earned\<close> is fired with the player and the
  achievement, calling the listeners registered for the event. So the achievements
  granted by a pass are a subsequence of the rules' achievements, with distinct ids none
  of which the player held, they are appended to the player's achievements, and the pass
  fires exactly one event for each, in the same order. A pass can grant more than one
  achievement. In any run of the engine \<open>achievement_earned\<close> has been fired exactly
  once for every pair of a player and an achievement id the player holds, and never for
  another pair; and a listener registered for the event at the start of the run, and not
  again, has been called exactly once for every such pair and never for another. More
  generally, over any stretch of a run in which a listener is not registered anew, its
  calls for a pair grow by the number of its registrations for each new grant of that
  pair. With a rule on \<open>level \<ge> 5\<close> and a listener, the listener is not called while
  the player climbs to level 4, it is called once by the call of \<open>award_experience\<close>
  that brings the player to level 5, and not by the next call.
\<close>

theorem achievement_rules_pass:
  "check_achievements e p w = check_loop e (achievement_rules e) [] p w
 \<and> achievement_rules (add_achievement_rule rule0 e) = achievement_rules e @ [rule0]
 \<and> check_loop e (rule # rules) acc p w =
     (if ach_id (achievement rule) \<in> set (map ach_id (achievements p))
      then check_loop e rules acc p w
      else if \<not> check rule p w
      then check_loop e rules acc p w
      else check_loop e rules (acc @ [achievement rule])
             (fst (earn_achievement (achievement rule) p w))
             (trigger_event e ''achievement_earned''
                (fst (earn_achievement (achievement rule) p w))
                (AchievementArg (achievement rule))
                (snd (earn_achievement (achievement rule) p w))))
 \<and> (check_achievements e p w = (new, p', w') \<longrightarrow>
      achievements p' = achievements p @ new \<and>
      subseq new (map achievement (achievement_rules e)) \<and>
      distinct (map ach_id new) \<and>
      set (map ach_id new) \<inter> set (map ach_id (achievements p)) = {} \<and>
      (\<forall>ls. map_of (event_listeners e) ''achievement_earned'' = Some ls \<longrightarrow>
         (\<exists>ts. trace w' = trace w @ ts \<and>
               map f_arg ts = map AchievementArg new \<and>
               (\<forall>f \<in> set ts. f_event f = ''achievement_earned'' \<and>
                              player_id (f_player f) = player_id p \<and>
                              f_listeners f = ls))))
 \<and> (\<exists>e1 p1 w1. length (fst (check_achievements e1 p1 w1)) = 2)
 \<and> (run cs (GameEngine_init, init_world clk) = (e2, w2) \<longrightarrow>
      count_list (earned_firings w2) (pid, aid) =
        (if \<exists>q. get_player e2 pid = Some q \<and> aid \<in> set (map ach_id (achievements q))
         then 1 else 0))
 \<and> (run (On ''achievement_earned'' l # cs0) (GameEngine_init, init_world clk0) = (e0, w0) \<and>
    (\<forall>c \<in> set cs0. c \<noteq> On ''achievement_earned'' l) \<longrightarrow>
      count_list (listener_calls l w0) (pid, aid) =
        (if \<exists>q. get_player e0 pid = Some q \<and> aid \<in> set (map ach_id (achievements q))
         then 1 else 0))
 \<and> (run cs1 (GameEngine_init, init_world clk1) = (e3, w3) \<and> run cs2 (e3, w3) = (e4, w4) \<and>
    (\<forall>c \<in> set cs2. c \<noteq> On ''achievement_earned'' l) \<longrightarrow>
      count_list (listener_calls l w4) (pid, aid)
        + registered e3 l *
            (if \<exists>q. get_player e3 pid = Some q \<and> aid \<in> set (map ach_id (achievements q))
             then 1 else 0)
      = count_list (listener_calls l w3) (pid, aid)
        + registered e3 l *
            (if \<exists>q. get_player e4 pid = Some q \<and> aid \<in> set (map ach_id (achievements q))
             then 1 else 0))
 \<and> earned_firings (snd (run climbing (GameEngine_init, init_world int))) = []
 \<and> map (\<lambda>(k, q). (k, level q)) (players (fst (run climbing (GameEngine_init, init_world int))))
     = [(''p1'', 4)]
 \<and> earned_firings (snd (run (climbing @ [AwardExperience ''p1'' 400])
                           (GameEngine_init, init_world int))) = [(''p1'', ''veteran'')]
 \<and> map (\<lambda>(k, q). (k, level q))
     (players (fst (run (climbing @ [AwardExperience ''p1'' 400])
                      (GameEngine_init, init_world int))))
     = [(''p1'', 5)]
 \<and> earned_firings (snd (run (climbing @ [AwardExperience ''p1'' 400, AwardExperience ''p1'' 500])
                           (GameEngine_init, init_world int))) = [(''p1'', ''veteran'')]
 \<and> listener_calls 8 (snd (run climbing (GameEngine_init, init_world int))) = []
 \<and> listener_calls 8 (snd (run (climbing @ [AwardExperience ''p1'' 400])
                             (GameEngine_init, init_world int))) = [(''p1'', ''veteran'')]
 \<and> listener_calls 8 (snd (run (climbing @ [AwardExperience ''p1'' 400, AwardExperience ''p1'' 500])
                             (GameEngine_init, init_world int))) = [(''p1'', ''veteran'')]"
proof -
  have multiple: "\<exists>e1 p1 w1. length (fst (check_achievements e1 p1 w1)) = 2"
  proof (intro exI)
    show "length (fst (check_achievements two_rules
                         (fst (Player_init ''p1'' ''alice'' (init_world int)))
                         (snd (Player_init ''p1'' ''alice'' (init_world int))))) = 2"
      by (simp only: two_rules_pass) simp
  qed
  have result: "check_achievements e p w = (new, p', w') \<longrightarrow>
      achievements p' = achievements p @ new \<and>
      subseq new (map achievement (achievement_rules e)) \<and>
      distinct (map ach_id new) \<and>
      set (map ach_id new) \<inter> set (map ach_id (achievements p)) = {} \<and>
      (\<forall>ls. map_of (event_listeners e) ''achievement_earned'' = Some ls \<longrightarrow>
         (\<exists>ts. trace w' = trace w @ ts \<and>
               map f_arg ts = map AchievementArg new \<and>
               (\<forall>f \<in> set ts. f_event f = ''achievement_earned'' \<and>
                              player_id (f_player f) = player_id p \<and>
                              f_listeners f = ls)))"
    using check_achievements_result by blast
  have once: "run cs (GameEngine_init, init_world clk) = (e2, w2) \<longrightarrow>
      count_list (earned_firings w2) (pid, aid) =
        (if \<exists>q. get_player e2 pid = Some q \<and> aid \<in> set (map ach_id (achievements q))
         then 1 else 0)"
    using earned_exactly_once by blast
  have called: "run (On ''achievement_earned'' l # cs0) (GameEngine_init, init_world clk0) = (e0, w0) \<and>
    (\<forall>c \<in> set cs0. c \<noteq> On ''achievement_earned'' l) \<longrightarrow>
      count_list (listener_calls l w0) (pid, aid) =
        (if \<exists>q. get_player e0 pid = Some q \<and> aid \<in> set (map ach_id (achievements q))
         then 1 else 0)"
  proof (intro impI, elim conjE)
    assume "run (On ''achievement_earned'' l # cs0) (GameEngine_init, init_world clk0) = (e0, w0)"
      and "\<forall>c \<in> set cs0. c \<noteq> On ''achievement_earned'' l"
    then show "count_list (listener_calls l w0) (pid, aid) =
        (if \<exists>q. get_player e0 pid = Some q \<and> aid \<in> set (map ach_id (achievements q))
         then 1 else 0)"
      by (rule listener_called_once)
  qed
  have law: "run cs1 (GameEngine_init, init_world clk1) = (e3, w3) \<and> run cs2 (e3, w3) = (e4, w4) \<and>
    (\<forall>c \<in> set cs2. c \<noteq> On ''achievement_earned'' l) \<longrightarrow>
      count_list (listener_calls l w4) (pid, aid)
        + registered e3 l *
            (if \<exists>q. get_player e3 pid = Some q \<and> aid \<in> set (map ach_id (achievements q))
             then 1 else 0)
      = count_list (listener_calls l w3) (pid, aid)
        + registered e3 l *
            (if \<exists>q. get_player e4 pid = Some q \<and> aid \<in> set (map ach_id (achievements q))
             then 1 else 0)"
  proof (intro impI, elim conjE)
    assume "run cs1 (GameEngine_init, init_world clk1) = (e3, w3)"
      and "run cs2 (e3, w3) = (e4, w4)"
      and "\<forall>c \<in> set cs2. c \<noteq> On ''achievement_earned'' l"
    then show "count_list (listener_calls l w4) (pid, aid)
        + registered e3 l *
            (if \<exists>q. get_player e3 pid = Some q \<and> aid \<in> set (map ach_id (achievements q))
             then 1 else 0)
      = count_list (listener_calls l w3) (pid, aid)
        + registered e3 l *
            (if \<exists>q. get_player e4 pid = Some q \<and> aid \<in> set (map ach_id (achievements q))
             then 1 else 0)"
      by (rule listener_calls_law)
  qed
  have order: "achievement_rules (add_achievement_rule rule0 e) = achievement_rules e @ [rule0]"
    by (simp add: add_achievement_rule_def)
  note pass = check_achievements_def [of e p w] and step = check_loop_step [of e rule rules acc p w]
  note examples = climbing_example climbing_calls
  show ?thesis
    apply (intro conjI)
                   apply (rule pass)
                  apply (rule order)
                 apply (rule step)
                apply (rule result)
               apply (rule multiple)
              apply (rule once)
             apply (rule called)
            apply (rule law)
           apply (rule examples(1))
          apply (rule examples(2))
         apply (rule examples(3))
        apply (rule examples(4))
       apply (rule examples(5))
      apply (rule examples(6))
     apply (rule examples(7))
    apply (rule examples(8))
    done
qed

theorem achievement_rules_pass_witness:
  "(case check_achievements two_rules (fst (Player_init ''p1'' ''alice'' (init_world int)))
           (snd (Player_init ''p1'' ''alice'' (init_world int))) of
      (new, p', w') \<Rightarrow>
        map ach_id new = [''first'', ''starter''] \<and>
        map ach_id (achievements p') = [''first'', ''starter''] \<and>
        map f_arg (trace w') = map AchievementArg new \<and>
        map f_listeners (trace w') = [[8], [8]])
 \<and> count_list
      (earned_firings (snd (run (climbing @ [AwardExperience ''p1'' 400, AwardExperience ''p1'' 500])
                              (GameEngine_init, init_world int))))
      (''p1'', ''veteran'') = 1
 \<and> count_list
      (listener_calls 8 (snd (run (climbing @ [AwardExperience ''p1'' 400, AwardExperience ''p1'' 500])
                                (GameEngine_init, init_world int))))
      (''p1'', ''veteran'') = 1"
proof -
  let ?p = "fst (Player_init ''p1'' ''alice'' (init_world int))"
  let ?w = "snd (Player_init ''p1'' ''alice'' (init_world int))"
  let ?rest = "[AddAchievementRule level5_rule, RegisterPlayer ''p1'' ''alice'',
                AwardExperience ''p1'' 100, AwardExperience ''p1'' 200,
                AwardExperience ''p1'' 300, AwardExperience ''p1'' 400,
                AwardExperience ''p1'' 500]"
  let ?s = "run (climbing @ [AwardExperience ''p1'' 400, AwardExperience ''p1'' 500])
              (GameEngine_init, init_world int)"
  obtain new p' w' where pass: "check_achievements two_rules ?p ?w = (new, p', w')"
    by (metis prod_cases3)
  have new: "new = [badge, achievement starter_rule]"
    using two_rules_pass pass by simp
  have start: "achievements ?p = []" "trace ?w = []"
    "map_of (event_listeners two_rules) ''achievement_earned'' = Some [8]"
    by (simp_all add: Player_init_def now_def init_world_def two_rules_def
          add_achievement_rule_def GameEngine_init_def on_def)
  have whole: "run (On ''achievement_earned'' 8 # ?rest) (GameEngine_init, init_world int)
                 = (fst ?s, snd ?s)"
    by (simp add: climbing_def)
  have quiet: "\<forall>c \<in> set ?rest. c \<noteq> On ''achievement_earned'' 8" by simp
  have whole': "run (climbing @ [AwardExperience ''p1'' 400, AwardExperience ''p1'' 500])
                  (GameEngine_init, init_world int) = (fst ?s, snd ?s)"
    by simp
  note result = achievement_rules_pass
      [THEN conjunct2, THEN conjunct2, THEN conjunct2, THEN conjunct1, THEN mp, OF pass]
  note once = achievement_rules_pass
      [THEN conjunct2, THEN conjunct2, THEN conjunct2, THEN conjunct2, THEN conjunct2,
       THEN conjunct1, THEN mp, OF whole', of "''p1''" "''veteran''"]
  note called = achievement_rules_pass
      [THEN conjunct2, THEN conjunct2, THEN conjunct2, THEN conjunct2, THEN conjunct2,
       THEN conjunct2, THEN conjunct1, THEN mp, OF conjI [OF whole quiet],
       of "''p1''" "''veteran''"]
  from result have appended: "achievements p' = achievements ?p @ new"
    by (elim conjE)
  from result
  have "\<forall>ls. map_of (event_listeners two_rules) ''achievement_earned'' = Some ls \<longrightarrow>
         (\<exists>ts. trace w' = trace ?w @ ts \<and>
               map f_arg ts = map AchievementArg new \<and>
               (\<forall>f \<in> set ts. f_event f = ''achievement_earned'' \<and>
                              player_id (f_player f) = player_id ?p \<and>
                              f_listeners f = ls))"
    by (elim conjE)
  with start(3) obtain ts where ts0: "trace w' = trace ?w @ ts"
    "map f_arg ts = map AchievementArg new"
    "\<forall>f \<in> set ts. f_event f = ''achievement_earned'' \<and>
                              player_id (f_player f) = player_id ?p \<and>
                              f_listeners f = [8]"
    by blast
  have ts: "trace w' = ts" using ts0(1) start(2) by simp
  have fired: "map f_arg (trace w') = map AchievementArg new" using ts ts0(2) by simp
  from ts0(2) new obtain f1 f2 where two: "ts = [f1, f2]"
    by (auto simp: map_eq_Cons_conv)
  with ts ts0(3) have listeners: "map f_listeners (trace w') = [[8], [8]]" by simp
  have ids: "map ach_id new = [''first'', ''starter'']"
    by (simp add: new badge_def starter_rule_def veteran_def)
  have held: "map ach_id (achievements p') = [''first'', ''starter'']"
    using appended start(1) ids by simp
  have holds: "\<exists>q. get_player (fst ?s) ''p1'' = Some q
                  \<and> ''veteran'' \<in> set (map ach_id (achievements q))"
    by (simp add: climbing_def level5_rule_def veteran_def engine_defs check_def
          earn_achievement_def)
  from once holds have count: "count_list (earned_firings (snd ?s)) (''p1'', ''veteran'') = 1"
    by (simp only: if_True)
  from called holds
  have calls: "count_list (listener_calls 8 (snd ?s)) (''p1'', ''veteran'') = 1"
    by (simp only: if_True)
  from ids held fired listeners count calls show ?thesis by (simp add: pass)
qed

section \<open>Progression over a run\<close>

lemma add_experience_ok:
  assumes "gain_ok b a" and "player_ok b p" and "add_experience a p w = (x, p', w')"
  shows "player_ok b p'" and "total_points p' = total_points p" and "level p \<le> level p'"
proof -
  from assms(1) have a: "0 \<le> a" "b \<Longrightarrow> a \<le> 200" by (simp_all add: gain_ok_def)
  from assms(2) have p: "1 \<le> level p" "0 \<le> experience p" "0 \<le> total_points p"
    "b \<Longrightarrow> experience p < 100 * level p"
    by (simp_all add: player_ok_def)
  show "total_points p' = total_points p" "level p \<le> level p'"
    using assms(3) by (auto simp: add_experience_cases split: if_splits)
  show "player_ok b p'"
  proof (cases "100 * level p \<le> experience p + a")
    case True
    then have p': "level p' = level p + 1" "experience p' = experience p + a - 100 * level p"
      "total_points p' = total_points p"
      using assms(3) by (auto simp: add_experience_cases)
    have "experience p' < 100 * level p'" if b
      using a(2) [OF that] p(1) p(4) [OF that] p' by simp
    with p' p True show ?thesis by (simp add: player_ok_def)
  next
    case False
    then have p': "level p' = level p" "experience p' = experience p + a"
      "total_points p' = total_points p"
      using assms(3) by (auto simp: add_experience_cases)
    with p a False show ?thesis by (simp add: player_ok_def)
  qed
qed

lemma earn_achievement_ok:
  assumes "gain_ok b (ach_points a)" and "player_ok b p" and "earn_achievement a p w = (p', w')"
  shows "player_ok b p'" and "grows p p'"
proof -
  show "player_ok b p'"
  proof (cases "ach_id a \<in> set (map ach_id (achievements p))")
    case True
    with assms show ?thesis by (simp add: earn_achievement_def)
  next
    case False
    let ?q = "p\<lparr>achievements := achievements p @ [a],
                 total_points := total_points p + ach_points a\<rparr>"
    obtain x where ae: "add_experience (ach_points a) ?q w = (x, p', w')"
      using assms(3) False by (auto simp: earn_achievement_def split: prod.splits)
    have "player_ok b ?q" using assms(1,2) by (simp add: player_ok_def gain_ok_def)
    from add_experience_ok(1) [OF assms(1) this ae] show ?thesis .
  qed
  show "grows p p'"
    using assms
    by (auto simp: grows_def gain_ok_def earn_achievement_def add_experience_cases
          split: if_splits)
qed

lemma complete_challenge_ok:
  assumes "\<forall>r. gain_ok b (ch_points (heap w r))" and "player_ok b p"
    and "complete_challenge cid p w = (ok, p', w')"
  shows "player_ok b p'" and "grows p p'" and "\<forall>r. ch_points (heap w' r) = ch_points (heap w r)"
proof -
  show "\<forall>r. ch_points (heap w' r) = ch_points (heap w r)"
    using assms(3)
    by (auto simp: complete_challenge_def set_completed_def set_completed_at_def now_def
          add_experience_cases Let_def split: option.splits if_splits)
  show "player_ok b p'" "grows p p'"
  proof -
    have "player_ok b p' \<and> grows p p'"
    proof (cases "map_of (challenges p) cid")
      case None
      with assms show ?thesis by (simp add: complete_challenge_def grows_def)
    next
      case (Some r)
      show ?thesis
      proof (cases "completed (heap w r)")
        case True
        with Some assms show ?thesis by (simp add: complete_challenge_def grows_def)
      next
        case False
        from assms(1) have g: "gain_ok b (ch_points (heap w r))" by blast
        let ?q = "p\<lparr>total_points := total_points p + ch_points (heap w r)\<rparr>"
        let ?w2 = "set_completed_at r (Some (clock w (reads w)))
                     ((set_completed r True w)\<lparr>reads := Suc (reads w)\<rparr>)"
        obtain x p1 w3 where ae: "add_experience (ch_points (heap w r)) ?q ?w2 = (x, p1, w3)"
          by (metis prod_cases3)
        have q: "player_ok b ?q" using assms(2) g by (simp add: player_ok_def gain_ok_def)
        note ok1 = add_experience_ok [OF g q ae]
        have p': "p' = increase_skills (ch_skills (heap w3 r)) p1"
          using assms(3) Some False ae
          by (auto simp: complete_challenge_def now_def set_completed_def set_completed_at_def)
        have "player_ok b p'" using ok1(1) by (simp add: p' increase_skills_eq player_ok_def)
        moreover have "grows p p'"
          using ok1(2,3) g by (simp add: p' increase_skills_eq grows_def gain_ok_def)
        ultimately show ?thesis by simp
      qed
    qed
    then show "player_ok b p'" "grows p p'" by simp_all
  qed
qed

lemma grows_trans: "grows p q \<Longrightarrow> grows q r \<Longrightarrow> grows p r"
  by (auto simp: grows_def)

lemma grows_refl: "grows p p"
  by (simp add: grows_def)

lemma check_loop_ok:
  assumes "\<forall>rule \<in> set rules. gain_ok b (ach_points (achievement rule))"
    and "player_ok b p" and "check_loop e rules acc p w = (new, p', w')"
  shows "player_ok b p' \<and> grows p p'"
  using assms
proof (induction rules arbitrary: acc p w)
  case Nil
  then show ?case by (simp add: grows_refl)
next
  case (Cons rule rules)
  have rest: "\<forall>rule \<in> set rules. gain_ok b (ach_points (achievement rule))"
    using Cons.prems(1) by simp
  show ?case
  proof (cases "ach_id (achievement rule) \<notin> set (map ach_id (achievements p)) \<and> check rule p w")
    case False
    then have "check_loop e rules acc p w = (new, p', w')"
      using Cons.prems(3) by (auto simp: list_ex_ach_id)
    from Cons.IH [OF rest Cons.prems(2) this] show ?thesis .
  next
    case True
    obtain p1 w1 where earn: "earn_achievement (achievement rule) p w = (p1, w1)"
      by (cases "earn_achievement (achievement rule) p w")
    have g: "gain_ok b (ach_points (achievement rule))" using Cons.prems(1) by simp
    note ok1 = earn_achievement_ok [OF g Cons.prems(2) earn]
    have "check_loop e rules (acc @ [achievement rule]) p1
            (trigger_event e ''achievement_earned'' p1 (AchievementArg (achievement rule)) w1)
          = (new, p', w')"
      using Cons.prems(3) True earn by (auto simp: list_ex_ach_id)
    from Cons.IH [OF rest ok1(1) this] ok1(2) show ?thesis
      by (blast intro: grows_trans)
  qed
qed

lemma progress_invD:
  assumes "progress_inv b (e, w)"
  shows "\<forall>r. gain_ok b (ch_points (heap w r))"
    and "\<forall>rule \<in> set (achievement_rules e). gain_ok b (ach_points (achievement rule))"
    and "\<forall>k p. get_player e k = Some p \<longrightarrow> player_ok b p"
  using assms by (simp_all add: progress_inv_def)

lemma progress_store:
  assumes inv: "progress_inv b (e, w)"
    and player: "get_player e pid = Some p0"
    and ok: "player_ok b p2" "grows p0 p2"
    and points: "\<forall>r. ch_points (heap w2 r) = ch_points (heap w r)"
  shows "progress_inv b (put_player pid p2 e, w2) \<and>
         (\<forall>k p. get_player e k = Some p \<longrightarrow>
            (\<exists>p'. get_player (put_player pid p2 e) k = Some p' \<and> grows p p'))"
proof -
  note heap_ok = progress_invD(1) [OF inv] and rules_ok = progress_invD(2) [OF inv]
    and players_ok = progress_invD(3) [OF inv]
  have a: "\<forall>r. gain_ok b (ch_points (heap w2 r))" using heap_ok points by simp
  have b: "\<forall>rule \<in> set (achievement_rules (put_player pid p2 e)).
              gain_ok b (ach_points (achievement rule))"
    using rules_ok by (simp add: put_player_def)
  have c: "\<forall>k p. get_player (put_player pid p2 e) k = Some p \<longrightarrow> player_ok b p"
    using players_ok ok(1) by (simp add: get_player_put)
  have d: "\<forall>k p. get_player e k = Some p \<longrightarrow>
            (\<exists>p'. get_player (put_player pid p2 e) k = Some p' \<and> grows p p')"
    using player ok(2) by (auto simp: get_player_put grows_refl)
  show ?thesis
    unfolding progress_inv_def prod.case using a b c d by blast
qed

lemma progress_same:
  assumes inv: "progress_inv b (e, w)"
    and "players e' = players e" "achievement_rules e' = achievement_rules e"
    and "\<forall>r. ch_points (heap w' r) = ch_points (heap w r)"
  shows "progress_inv b (e', w') \<and>
         (\<forall>k p. get_player e k = Some p \<longrightarrow>
            (\<exists>p'. get_player e' k = Some p' \<and> grows p p'))"
  using assms by (simp add: progress_inv_def get_player_def grows_refl)

lemma progress_step:
  assumes inv: "progress_inv b (e, w)"
    and gains: "\<forall>g \<in> set (call_gains c). gain_ok b g"
  shows "progress_inv b (step c (e, w)) \<and>
         (\<forall>k p. get_player e k = Some p \<longrightarrow>
            (\<exists>p'. get_player (fst (step c (e, w))) k = Some p' \<and> grows p p'))"
proof -
  note heap_ok = progress_invD(1) [OF inv] and rules_ok = progress_invD(2) [OF inv]
    and players_ok = progress_invD(3) [OF inv]
  show ?thesis
  proof (cases c)
    case (RegisterPlayer pid uname)
    show ?thesis
    proof (cases "map_of (players e) pid")
      case (Some p)
      then have "step c (e, w) = (e, w)"
        using RegisterPlayer by (simp add: register_player_def)
      with progress_same [OF inv, of e w] show ?thesis by simp
    next
      case None
      let ?fresh = "fst (Player_init pid uname w)"
      let ?w' = "snd (Player_init pid uname w)"
      have st: "step c (e, w) = (put_player pid ?fresh e, ?w')"
        using RegisterPlayer None by (simp add: register_player_def split: prod.splits)
      have fr: "player_ok b ?fresh" "heap ?w' = heap w"
        by (simp_all add: Player_init_def now_def player_ok_def)
      have none: "get_player e pid = None" using None by (simp add: get_player_def)
      have a: "\<forall>r. gain_ok b (ch_points (heap ?w' r))" using heap_ok fr by simp
      have r: "\<forall>rule \<in> set (achievement_rules (put_player pid ?fresh e)).
              gain_ok b (ach_points (achievement rule))"
        using rules_ok by (simp add: put_player_def)
      have c: "\<forall>k p. get_player (put_player pid ?fresh e) k = Some p \<longrightarrow> player_ok b p"
        using players_ok fr(1) by (simp add: get_player_put)
      have d: "\<forall>k p. get_player e k = Some p \<longrightarrow>
            (\<exists>p'. get_player (put_player pid ?fresh e) k = Some p' \<and> grows p p')"
        using none by (auto simp: get_player_put grows_refl)
      show ?thesis
        unfolding st progress_inv_def prod.case fst_conv using a r c d by blast
    qed
  next
    case (AddAchievementRule rule)
    have "progress_inv b (add_achievement_rule rule e, w)"
      using inv gains AddAchievementRule
      by (simp add: progress_inv_def add_achievement_rule_def get_player_def)
    then show ?thesis
      using AddAchievementRule
      by (simp add: add_achievement_rule_def get_player_def grows_refl)
  next
    case (NewChallenge ch)
    have "progress_inv b (e, snd (new_challenge ch w))"
      using inv gains NewChallenge
      by (simp add: progress_inv_def new_challenge_def)
    then show ?thesis
      using NewChallenge by (simp add: grows_refl)
  next
    case (AddChallenge r)
    have "step c (e, w) = (add_challenge r e w, w) \<or> step c (e, w) = (e, w)"
      using AddChallenge by simp
    then show ?thesis
    proof
      assume st: "step c (e, w) = (add_challenge r e w, w)"
      from progress_same [OF inv, of "add_challenge r e w" w] show ?thesis
        by (simp add: st add_challenge_def)
    next
      assume st: "step c (e, w) = (e, w)"
      from progress_same [OF inv, of e w] show ?thesis by (simp add: st)
    qed
  next
    case (AssignChallenge pid cid)
    show ?thesis
    proof (cases "get_player e pid")
      case None
      then have "step c (e, w) = (e, w)"
        using AssignChallenge by (simp add: assign_challenge_def)
      with progress_same [OF inv, of e w] show ?thesis by simp
    next
      case (Some player)
      show ?thesis
      proof (cases "map_of (challenge_catalog e) cid")
        case None
        then have "step c (e, w) = (e, w)"
          using AssignChallenge Some by (simp add: assign_challenge_def)
        with progress_same [OF inv, of e w] show ?thesis by simp
      next
        case (Some r)
        have st: "step c (e, w) = (put_player pid (start_challenge r player w) e, w)"
          using AssignChallenge Some \<open>get_player e pid = Some player\<close>
          by (simp add: assign_challenge_def)
        have "player_ok b player" using players_ok \<open>get_player e pid = Some player\<close> by blast
        then have "player_ok b (start_challenge r player w)"
          "grows player (start_challenge r player w)"
          by (simp_all add: start_challenge_def player_ok_def grows_def)
        from progress_store [OF inv \<open>get_player e pid = Some player\<close> this, where ?w2.0 = w]
        show ?thesis by (simp add: st)
      qed
    qed
  next
    case (CompletePlayerChallenge pid cid)
    show ?thesis
    proof (cases "get_player e pid")
      case None
      then have "step c (e, w) = (e, w)"
        using CompletePlayerChallenge by (simp add: complete_player_challenge_def)
      with progress_same [OF inv, of e w] show ?thesis by simp
    next
      case (Some player)
      obtain success p1 w1 where cc: "complete_challenge cid player w = (success, p1, w1)"
        by (metis prod_cases3)
      have pl: "player_ok b player" using players_ok Some by blast
      note ok1 = complete_challenge_ok [OF heap_ok pl cc]
      show ?thesis
      proof (cases success)
        case False
        have st: "step c (e, w) = (put_player pid p1 e, w1)"
          using CompletePlayerChallenge Some cc False
          by (simp add: complete_player_challenge_def)
        from progress_store [OF inv Some ok1] show ?thesis by (simp add: st)
      next
        case True
        let ?w2 = "trigger_event e ''challenge_completed'' p1 (ChallengeIdArg cid) w1"
        obtain new p2 w2 where ca: "check_achievements e p1 ?w2 = (new, p2, w2)"
          by (metis prod_cases3)
        have st: "step c (e, w) = (put_player pid p2 e, w2)"
          using CompletePlayerChallenge Some cc True ca
          by (simp add: complete_player_challenge_def)
        from check_loop_ok [OF rules_ok ok1(1) ca [unfolded check_achievements_def]]
        have ok2: "player_ok b p2" "grows p1 p2" by simp_all
        from check_loop_grants [OF ca [unfolded check_achievements_def]]
        have "heap w2 = heap ?w2" by blast
        with ok1(3) have pts: "\<forall>r. ch_points (heap w2 r) = ch_points (heap w r)"
          by (simp add: trigger_event_frame)
        from progress_store [OF inv Some ok2(1) grows_trans [OF ok1(2) ok2(2)] pts]
        show ?thesis by (simp add: st)
      qed
    qed
  next
    case (AwardExperience pid amount)
    show ?thesis
    proof (cases "get_player e pid")
      case None
      then have "step c (e, w) = (e, w)"
        using AwardExperience by (simp add: award_experience_def)
      with progress_same [OF inv, of e w] show ?thesis by simp
    next
      case (Some player)
      obtain x p1 w1 where ae: "add_experience amount player w = (x, p1, w1)"
        by (metis prod_cases3)
      have pl: "player_ok b player" using players_ok Some by blast
      have g: "gain_ok b amount" using gains AwardExperience by simp
      note ok1 = add_experience_ok [OF g pl ae]
      let ?w2 = "if x then trigger_event e ''level_up'' p1 NoArg w1 else w1"
      obtain new p2 w2 where ca: "check_achievements e p1 ?w2 = (new, p2, w2)"
        by (metis prod_cases3)
      have st: "step c (e, w) = (put_player pid p2 e, w2)"
        using AwardExperience Some ae ca by (simp add: award_experience_def)
      from check_loop_ok [OF rules_ok ok1(1) ca [unfolded check_achievements_def]]
      have ok2: "player_ok b p2" "grows p1 p2" by simp_all
      from check_loop_grants [OF ca [unfolded check_achievements_def]]
      have "heap w2 = heap ?w2" by blast
      then have pts: "\<forall>r. ch_points (heap w2 r) = ch_points (heap w r)"
        using add_experience_frame [OF ae] by (simp add: trigger_event_frame)
      have "grows player p1" using ok1(2,3) by (simp add: grows_def)
      from progress_store [OF inv Some ok2(1) grows_trans [OF this ok2(2)] pts]
      show ?thesis by (simp add: st)
    qed
  next
    case (On event listener)
    from progress_same [OF inv, of "on event listener e" w] show ?thesis
      using On by (simp add: on_def split: option.splits)
  qed
qed

lemma progress_init: "progress_inv b (GameEngine_init, init_world clk)"
  by (simp add: progress_inv_def GameEngine_init_def init_world_def get_player_def
        blank_challenge_def gain_ok_def)

lemma progress_run:
  assumes "progress_inv b s" and "\<forall>c \<in> set cs. \<forall>g \<in> set (call_gains c). gain_ok b g"
  shows "progress_inv b (run cs s)"
  using assms
proof (induction cs arbitrary: s)
  case Nil
  then show ?case by simp
next
  case (Cons c cs)
  obtain e w where s: "s = (e, w)" by (cases s)
  have "progress_inv b (step c (e, w))"
    using progress_step [of b e w c] Cons.prems by (simp add: s)
  then show ?case using Cons by (simp add: s)
qed

text \<open>
  Claim C3, as amended. In any run of the engine from its initial state in which every
  awarded amount and every point value of a challenge or an achievement is non-negative,
  every registered player has \<open>level \<ge> 1\<close>, \<open>experience \<ge> 0\<close> and
  \<open>total_points \<ge> 0\<close> after every call, and no call lowers a player's
  \<open>total_points\<close> or level. The experience is below the threshold \<open>100 * level\<close>
  after every call whenever, in addition, no amount and no point value exceeds 200. For
  one call of \<open>add_experience\<close> on a player within the bound, the bound holds afterwards
  exactly when the experience plus the amount is below \<open>100 * (2 * level + 1)\<close>, since
  one level-up at most is applied; so 200 is the largest such limit: a new player awarded
  99 and then 201 is at level 2 with experience 200.
\<close>

theorem progression_invariants:
  assumes "\<forall>x \<in> set (cs @ [c]). \<forall>g \<in> set (call_gains x). 0 \<le> g"
    and "run cs (GameEngine_init, init_world clk) = (e, w)"
    and "step c (e, w) = (e', w')"
    and "get_player e pid = Some p"
  shows "1 \<le> level p \<and> 0 \<le> experience p \<and> 0 \<le> total_points p
       \<and> (\<exists>p'. get_player e' pid = Some p' \<and>
              total_points p \<le> total_points p' \<and> level p \<le> level p' \<and>
              1 \<le> level p' \<and> 0 \<le> experience p' \<and> 0 \<le> total_points p')
       \<and> ((\<forall>x \<in> set (cs @ [c]). \<forall>g \<in> set (call_gains x). g \<le> 200) \<longrightarrow>
            experience p < 100 * level p \<and>
            (\<forall>p'. get_player e' pid = Some p' \<longrightarrow> experience p' < 100 * level p'))
       \<and> (1 \<le> level q \<and> 0 \<le> experience q \<and> experience q < 100 * level q \<and>
          0 \<le> amount \<and> add_experience amount q v = (leveled, q', v') \<longrightarrow>
            (experience q' < 100 * level q' \<longleftrightarrow>
             experience q + amount < 100 * (2 * level q + 1)))
       \<and> map_option (\<lambda>a. (level a, experience a))
            (get_player
               (fst (run [RegisterPlayer ''p1'' ''alice'', AwardExperience ''p1'' 99,
                          AwardExperience ''p1'' 201] (GameEngine_init, init_world int)))
               ''p1'') = Some (2, 200)"
proof -
  have before: "progress_inv b (e, w)" and after: "progress_inv b (e', w')"
    and mono: "\<forall>k q. get_player e k = Some q \<longrightarrow>
                 (\<exists>q'. get_player e' k = Some q' \<and> grows q q')"
    if "\<forall>x \<in> set (cs @ [c]). \<forall>g \<in> set (call_gains x). gain_ok b g" for b
  proof -
    from that have cs: "\<forall>x \<in> set cs. \<forall>g \<in> set (call_gains x). gain_ok b g"
      and c: "\<forall>g \<in> set (call_gains c). gain_ok b g" by simp_all
    from progress_run [OF progress_init cs, of clk] assms(2)
    show inv: "progress_inv b (e, w)" by simp
    from progress_step [OF inv c] assms(3)
    show "progress_inv b (e', w')"
      and "\<forall>k q. get_player e k = Some q \<longrightarrow>
                 (\<exists>q'. get_player e' k = Some q' \<and> grows q q')"
      by simp_all
  qed
  have plain: "\<forall>x \<in> set (cs @ [c]). \<forall>g \<in> set (call_gains x). gain_ok False g"
    using assms(1) by (simp add: gain_ok_def)
  have p_ok: "player_ok False p"
    using progress_invD(3) [OF before [OF plain]] assms(4) by blast
  from mono [OF plain] assms(4) obtain p' where p': "get_player e' pid = Some p'" "grows p p'"
    by blast
  have p'_ok: "player_ok False p'"
    using progress_invD(3) [OF after [OF plain]] p'(1) by blast
  have first: "1 \<le> level p \<and> 0 \<le> experience p \<and> 0 \<le> total_points p"
    using p_ok by (simp add: player_ok_def)
  have second: "\<exists>p'. get_player e' pid = Some p' \<and>
              total_points p \<le> total_points p' \<and> level p \<le> level p' \<and>
              1 \<le> level p' \<and> 0 \<le> experience p' \<and> 0 \<le> total_points p'"
    using p' p'_ok by (auto simp: player_ok_def grows_def)
  have third: "experience p < 100 * level p \<and>
            (\<forall>p'. get_player e' pid = Some p' \<longrightarrow> experience p' < 100 * level p')"
    if small: "\<forall>x \<in> set (cs @ [c]). \<forall>g \<in> set (call_gains x). g \<le> 200"
  proof -
    have bounded: "\<forall>x \<in> set (cs @ [c]). \<forall>g \<in> set (call_gains x). gain_ok True g"
      using assms(1) small by (simp add: gain_ok_def)
    have "player_ok True p"
      using progress_invD(3) [OF before [OF bounded]] assms(4) by blast
    moreover have "\<forall>p'. get_player e' pid = Some p' \<longrightarrow> player_ok True p'"
      using progress_invD(3) [OF after [OF bounded]] by blast
    ultimately show ?thesis by (simp add: player_ok_def)
  qed
  have fourth: "1 \<le> level q \<and> 0 \<le> experience q \<and> experience q < 100 * level q \<and>
          0 \<le> amount \<and> add_experience amount q v = (leveled, q', v') \<longrightarrow>
            (experience q' < 100 * level q' \<longleftrightarrow>
             experience q + amount < 100 * (2 * level q + 1))"
    by (auto simp: add_experience_cases split: if_splits)
  have fifth: "map_option (\<lambda>a. (level a, experience a))
            (get_player
               (fst (run [RegisterPlayer ''p1'' ''alice'', AwardExperience ''p1'' 99,
                          AwardExperience ''p1'' 201] (GameEngine_init, init_world int)))
               ''p1'') = Some (2, 200)"
    by (simp add: engine_defs)
  from first second third fourth fifth show ?thesis by blast
qed

theorem progression_invariants_witness:
  "(case get_player (fst (run [RegisterPlayer ''p1'' ''alice'', AwardExperience ''p1'' 50]
                            (GameEngine_init, init_world int))) ''p1'' of
      None \<Rightarrow> False
    | Some p \<Rightarrow> level p = 1 \<and> experience p = 50 \<and> experience p < 100 * level p)
 \<and> (case get_player (fst (step (AwardExperience ''p1'' 150)
                            (run [RegisterPlayer ''p1'' ''alice'', AwardExperience ''p1'' 50]
                               (GameEngine_init, init_world int)))) ''p1'' of
      None \<Rightarrow> False
    | Some p' \<Rightarrow> level p' = 2 \<and> experience p' = 100 \<and> 0 \<le> total_points p' \<and>
                 experience p' < 100 * level p')"
proof -
  let ?cs = "[RegisterPlayer ''p1'' ''alice'', AwardExperience ''p1'' 50]"
  let ?s = "run ?cs (GameEngine_init, init_world int)"
  let ?s' = "step (AwardExperience ''p1'' 150) ?s"
  have gains: "\<forall>x \<in> set (?cs @ [AwardExperience ''p1'' 150]). \<forall>g \<in> set (call_gains x). 0 \<le> g"
    and small: "\<forall>x \<in> set (?cs @ [AwardExperience ''p1'' 150]). \<forall>g \<in> set (call_gains x). g \<le> 200"
    by simp_all
  have "\<exists>p. get_player (fst ?s) ''p1'' = Some p \<and> level p = 1 \<and> experience p = 50"
    by (simp add: engine_defs)
  then obtain p where p: "get_player (fst ?s) ''p1'' = Some p" "level p = 1" "experience p = 50"
    by blast
  have "\<exists>p'. get_player (fst ?s') ''p1'' = Some p' \<and> level p' = 2 \<and> experience p' = 100"
    by (simp add: engine_defs)
  then obtain p' where p': "get_player (fst ?s') ''p1'' = Some p'" "level p' = 2"
    "experience p' = 100"
    by blast
  have run: "run ?cs (GameEngine_init, init_world int) = (fst ?s, snd ?s)"
    and step: "step (AwardExperience ''p1'' 150) (fst ?s, snd ?s) = (fst ?s', snd ?s')"
    by simp_all
  note inv = progression_invariants [OF gains run step p(1)]
  note bound = inv [THEN conjunct2, THEN conjunct2, THEN conjunct2, THEN conjunct2,
                    THEN conjunct1]
  note inv [THEN conjunct2, THEN conjunct2, THEN conjunct2, THEN conjunct1]
  with p'(1) have pts: "0 \<le> total_points p'" by auto
  from bound small p'(1)
  have "experience p < 100 * level p" "experience p' < 100 * level p'"
    by blast+
  with p p' pts show ?thesis by simp
qed

text \<open>
  Claim C3 as stated fails on the bound: a new player awarded 350 is at level 2 with
  experience 250, which is not below the threshold 200.
\<close>

theorem experience_bound_fails:
  "map_option level
     (get_player (fst (run [RegisterPlayer ''p1'' ''alice'', AwardExperience ''p1'' 350]
                         (GameEngine_init, init_world int))) ''p1'') = Some 2
 \<and> map_option experience
     (get_player (fst (run [RegisterPlayer ''p1'' ''alice'', AwardExperience ''p1'' 350]
                         (GameEngine_init, init_world int))) ''p1'') = Some 250
 \<and> \<not> (250::int) < 100 * 2"
  by (simp add: engine_defs)

section \<open>Statistics\<close>



















end
